theory Spec2Isabelle
  imports Main "HOL-Library.Word"
begin

unbundle bit_operations_syntax

section \<open>Exceptions and enumerations\<close>

text \<open>
  The exception classes of \<^verbatim>\<open>exceptions.py\<close>, together with the three built-in
  exceptions the protocol code can run into: \<^verbatim>\<open>TypeError\<close> (arithmetic on the empty
  \<^verbatim>\<open>bytes\<close> object), \<^verbatim>\<open>IndexError\<close> (\<^verbatim>\<open>payload[0]\<close> on a short payload) and
  \<^verbatim>\<open>struct.error\<close> (\<^verbatim>\<open>struct.pack('B', x)\<close> with \<^verbatim>\<open>x\<close> outside 0..255).
\<close>

datatype exn =
    InvalidPacket | CorruptedPacket | CommunicationError | NoFingerFound
  | ReadImageError | MessyImageError | FewFeaturePointsError | InvalidImageError
  | UnknownError | NoTemplateFound | FingerNotFound | ReadInputError | FingerExists
  | CharacteristicsMismatchError | InvalidPosition | FlashError | DeleteTemplateError
  | NoAvailablePositionFound | SensorIsBusy | KillSignal
  | TypeError | IndexError | StructError

datatype DataType = COMMAND | ACK

datatype PayloadData =
    SCAN | START_BIT | SUCCESS | BUFFER_IMAGE | SEARCH_TEMPLATE | TEMPLATE_INDEX
  | COUNT_TEMPLATES | CREATE_TEMPLATE | STORE_TEMPLATE | DELETE_TEMPLATE | ERASE_FINGERS

datatype Error =
    NO_FINGER_FOUND | READIMAGE | MESSY_IMAGE | FEW_FEATURE_POINTS | INVALID_IMAGE
  | NO_TEMPLATE_FOUND | COMMUNICATION | CHARACTERISTICS_MISMATCH | INVALID_POSITION
  | FLASH | DELETE_TEMPLATE_ERROR

datatype CharBuffer = READ | WRITE

datatype SensorStatus = FREE | BUSY

text \<open>
  \<^verbatim>\<open>_enum_to_hexadecimal(data) = int(data.value, 16)\<close>, one function per enumeration
  (the values are the hexadecimal strings of \<^verbatim>\<open>enums.py\<close>).
\<close>

fun DataType_hex :: "DataType \<Rightarrow> int" where
  "DataType_hex COMMAND = 0x01"
| "DataType_hex ACK = 0x07"

fun PayloadData_hex :: "PayloadData \<Rightarrow> int" where
  "PayloadData_hex SCAN = 0x01"
| "PayloadData_hex START_BIT = 0xEF01"
| "PayloadData_hex SUCCESS = 0x00"
| "PayloadData_hex BUFFER_IMAGE = 0x02"
| "PayloadData_hex SEARCH_TEMPLATE = 0x04"
| "PayloadData_hex TEMPLATE_INDEX = 0x1F"
| "PayloadData_hex COUNT_TEMPLATES = 0x1D"
| "PayloadData_hex CREATE_TEMPLATE = 0x05"
| "PayloadData_hex STORE_TEMPLATE = 0x06"
| "PayloadData_hex DELETE_TEMPLATE = 0x0C"
| "PayloadData_hex ERASE_FINGERS = 0x0D"

fun Error_hex :: "Error \<Rightarrow> int" where
  "Error_hex NO_FINGER_FOUND = 0x02"
| "Error_hex READIMAGE = 0x03"
| "Error_hex MESSY_IMAGE = 0x06"
| "Error_hex FEW_FEATURE_POINTS = 0x07"
| "Error_hex INVALID_IMAGE = 0x15"
| "Error_hex NO_TEMPLATE_FOUND = 0x09"
| "Error_hex COMMUNICATION = 0x01"
| "Error_hex CHARACTERISTICS_MISMATCH = 0x0A"
| "Error_hex INVALID_POSITION = 0x0B"
| "Error_hex FLASH = 0x18"
| "Error_hex DELETE_TEMPLATE_ERROR = 0x10"

fun CharBuffer_hex :: "CharBuffer \<Rightarrow> int" where
  "CharBuffer_hex READ = 0x01"
| "CharBuffer_hex WRITE = 0x02"

section \<open>Bytes and shifts\<close>

type_synonym byte = "8 word"

text \<open>
  What one \<^verbatim>\<open>Serial.read()\<close> returns: one byte, or the empty \<^verbatim>\<open>bytes\<close> object when the
  serial timeout passed without data (\<open>None\<close>).
\<close>

type_synonym fragment = "byte option"

definition pack_bytes :: "int \<Rightarrow> exn + byte" where
  "pack_bytes data =
     (if 0 \<le> data \<and> data \<le> 255 then Inr (word_of_int data) else Inl StructError)"

definition unpack_bytes :: "byte \<Rightarrow> int" where
  "unpack_bytes data = uint data"

definition shift_right :: "int \<Rightarrow> nat \<Rightarrow> int" where
  "shift_right x y = (drop_bit y x) AND 0xFF"

definition shift_left :: "int \<Rightarrow> nat \<Rightarrow> int" where
  "shift_left x y = push_bit y x"

text \<open>
  \<^verbatim>\<open>_shift_left(hi, 8) or _shift_left(lo, 0)\<close> on two elements of \<^verbatim>\<open>received_data\<close>.
  An element is the unpacked integer of a byte, or the empty \<^verbatim>\<open>bytes\<close> object, on which
  \<^verbatim>\<open><<\<close> raises \<^verbatim>\<open>TypeError\<close>. Python's \<^verbatim>\<open>or\<close> returns its left operand when that is
  non-zero and evaluates the right operand only otherwise.
\<close>

definition shift_left_or :: "fragment \<Rightarrow> fragment \<Rightarrow> exn + int" where
  "shift_left_or hi lo =
     (case hi of
        None \<Rightarrow> Inl TypeError
      | Some h \<Rightarrow>
          if shift_left (unpack_bytes h) 8 \<noteq> 0 then Inr (shift_left (unpack_bytes h) 8)
          else (case lo of
                  None \<Rightarrow> Inl TypeError
                | Some l \<Rightarrow> Inr (shift_left (unpack_bytes l) 0)))"

text \<open>
  The same expression on two positions of a decoded payload (a list of integers);
  an index past the end raises \<^verbatim>\<open>IndexError\<close>, and the second index is only read when
  the shifted first value is zero.
\<close>

definition payload_shift_left_or :: "int list \<Rightarrow> nat \<Rightarrow> nat \<Rightarrow> exn + int" where
  "payload_shift_left_or payload i j =
     (if length payload \<le> i then Inl IndexError
      else if shift_left (payload ! i) 8 \<noteq> 0 then Inr (shift_left (payload ! i) 8)
      else if length payload \<le> j then Inl IndexError
      else Inr (shift_left (payload ! j) 0))"

section \<open>Session state\<close>

text \<open>
  The environment of a session: the configured device address, the bytes the device puts
  on the line (the \<open>n\<close>-th call of \<^verbatim>\<open>Serial.read()\<close> returns \<open>source n\<close>), and the wall
  clock (the \<open>n\<close>-th call of \<^verbatim>\<open>get_current_timestamp()\<close> returns \<open>clock n\<close>).
\<close>

record env =
  address :: int
  source :: "nat \<Rightarrow> fragment"
  clock :: "nat \<Rightarrow> int"

text \<open>
  What an observer of the session sees, in program order: an assignment to the
  process-wide sensor status \<^verbatim>\<open>g.status\<close>, or a packet handed to \<^verbatim>\<open>_send_data\<close>.
\<close>

datatype event = Mode SensorStatus | Sent DataType "int list"

text \<open>
  The mutable state: how many reads and clock readings were made, the bytes written to
  the serial port, the (data type, payload) pairs \<^verbatim>\<open>_send_data\<close> reports to the debug
  log, the process-wide sensor status \<^verbatim>\<open>g.status\<close>, whether
  \<^verbatim>\<open>g.signals.get('kill_read_finger')\<close> is truthy, and the history of the session: the
  status assignments and the packets sent so far, in the order in which they happened.
\<close>

record world =
  rpos :: nat
  ticks :: nat
  written :: "byte list"
  sent :: "(DataType \<times> int list) list"
  status :: SensorStatus
  kill_read_finger :: bool
  events :: "event list"

definition set_status :: "SensorStatus \<Rightarrow> world \<Rightarrow> world" where
  "set_status s w = w\<lparr>status := s, events := events w @ [Mode s]\<rparr>"

definition get_current_timestamp :: "env \<Rightarrow> world \<Rightarrow> int \<times> world" where
  "get_current_timestamp E w = (clock E (ticks w), w\<lparr>ticks := ticks w + 1\<rparr>)"

section \<open>Packet codec\<close>

subsection \<open>Encoder\<close>

definition serial_write :: "byte \<Rightarrow> world \<Rightarrow> world" where
  "serial_write b w = w\<lparr>written := written w @ [b]\<rparr>"

text \<open>
  A run of \<^verbatim>\<open>self._serial.write(self._pack_bytes(x))\<close> statements, in order; the first
  value that cannot be packed raises and ends the run.
\<close>

primrec write_packed :: "int list \<Rightarrow> world \<Rightarrow> (exn + unit) \<times> world" where
  "write_packed [] w = (Inr (), w)"
| "write_packed (x # xs) w =
     (case pack_bytes x of
        Inl e \<Rightarrow> (Inl e, w)
      | Inr b \<Rightarrow> write_packed xs (serial_write b w))"

text \<open>The payload loop of \<^verbatim>\<open>_send_data\<close>: write each byte, then add it to the checksum.\<close>

primrec send_payload :: "int list \<Rightarrow> int \<Rightarrow> world \<Rightarrow> (exn + int) \<times> world" where
  "send_payload [] packet_checksum w = (Inr packet_checksum, w)"
| "send_payload (p # ps) packet_checksum w =
     (case pack_bytes p of
        Inl e \<Rightarrow> (Inl e, w)
      | Inr b \<Rightarrow> send_payload ps (packet_checksum + p) (serial_write b w))"

definition send_data :: "env \<Rightarrow> DataType \<Rightarrow> int list \<Rightarrow> world \<Rightarrow> (exn + unit) \<times> world" where
  "send_data E data_type payload w0 =
     (let w = w0\<lparr>sent := sent w0 @ [(data_type, payload)],
                    events := events w0 @ [Sent data_type payload]\<rparr>;
          packet_length = int (length payload) + 2
      in case write_packed
                [shift_right (PayloadData_hex START_BIT) 8,
                 shift_right (PayloadData_hex START_BIT) 0,
                 shift_right (address E) 24,
                 shift_right (address E) 16,
                 shift_right (address E) 8,
                 shift_right (address E) 0,
                 DataType_hex data_type,
                 shift_right packet_length 8,
                 shift_right packet_length 0] w of
           (Inl e, w1) \<Rightarrow> (Inl e, w1)
         | (Inr _, w1) \<Rightarrow>
             (case send_payload payload
                     (DataType_hex data_type + shift_right packet_length 8
                        + shift_right packet_length 0) w1 of
                (Inl e, w2) \<Rightarrow> (Inl e, w2)
              | (Inr packet_checksum, w2) \<Rightarrow>
                  write_packed
                    [shift_right packet_checksum 8, shift_right packet_checksum 0] w2))"

subsection \<open>Decoder\<close>

text \<open>\<^verbatim>\<open>element != value\<close>: the empty \<^verbatim>\<open>bytes\<close> object differs from every integer.\<close>

definition differs :: "fragment \<Rightarrow> int \<Rightarrow> bool" where
  "differs f v = (case f of None \<Rightarrow> True | Some b \<Rightarrow> unpack_bytes b \<noteq> v)"

definition check_packet_header :: "fragment list \<Rightarrow> exn + unit" where
  "check_packet_header received_data =
     (if differs (received_data ! 0) (shift_right (PayloadData_hex START_BIT) 8)
         \<or> differs (received_data ! 1) (shift_right (PayloadData_hex START_BIT) 0)
      then Inl InvalidPacket else Inr ())"

text \<open>
  \<^verbatim>\<open>packet_checksum = data_type + received_data[7] + received_data[8]\<close>: adding the
  empty \<^verbatim>\<open>bytes\<close> object and an integer raises \<^verbatim>\<open>TypeError\<close>.
\<close>

definition checksum_start :: "fragment \<Rightarrow> fragment \<Rightarrow> fragment \<Rightarrow> exn + int" where
  "checksum_start t a b =
     (case (t, a, b) of
        (Some t', Some a', Some b') \<Rightarrow> Inr (unpack_bytes t' + unpack_bytes a' + unpack_bytes b')
      | _ \<Rightarrow> Inl TypeError)"

text \<open>
  The payload loop of \<^verbatim>\<open>_read_data\<close> over the elements at indices
  \<^verbatim>\<open>range(9, 9 + packet_payload_length - 2)\<close>: each is appended to the payload and added
  to the checksum, which raises \<^verbatim>\<open>TypeError\<close> on the empty \<^verbatim>\<open>bytes\<close> object.
\<close>

primrec collect_payload :: "fragment list \<Rightarrow> int \<Rightarrow> int list \<Rightarrow> exn + int \<times> int list" where
  "collect_payload [] packet_checksum payload = Inr (packet_checksum, payload)"
| "collect_payload (f # fs) packet_checksum payload =
     (case f of
        None \<Rightarrow> Inl TypeError
      | Some b \<Rightarrow>
          collect_payload fs (packet_checksum + unpack_bytes b) (payload @ [unpack_bytes b]))"

text \<open>
  What \<^verbatim>\<open>_read_data\<close> does once \<^verbatim>\<open>_counter >= packet_payload_length + 9\<close>;
  \<^verbatim>\<open>_counter\<close> always equals \<^verbatim>\<open>len(received_data)\<close>.
\<close>

definition complete_packet :: "fragment list \<Rightarrow> int \<Rightarrow> exn + int \<times> int list" where
  "complete_packet received_data packet_payload_length =
     (let counter = length received_data in
      case checksum_start (received_data ! 6) (received_data ! 7) (received_data ! 8) of
        Inl e \<Rightarrow> Inl e
      | Inr start \<Rightarrow>
          (case collect_payload
                  (take (nat (packet_payload_length - 2)) (drop 9 received_data)) start [] of
             Inl e \<Rightarrow> Inl e
           | Inr (packet_checksum, payload) \<Rightarrow>
               (case shift_left_or (received_data ! (counter - 2))
                                   (received_data ! (counter - 1)) of
                  Inl e \<Rightarrow> Inl e
                | Inr received_checksum \<Rightarrow>
                    if received_checksum \<noteq> packet_checksum then Inl CorruptedPacket
                    else Inr (unpack_bytes (the (received_data ! 6)), payload))))"

lemma shift_left_or_bound:
  "shift_left_or hi lo = Inr v \<Longrightarrow> v \<le> 65280"
proof -
  have b: "uint (h :: byte) \<le> 255" for h
    using uint_lt2p [of h] by simp
  assume "shift_left_or hi lo = Inr v"
  then have "(\<exists>h::byte. v = uint h * 256) \<or> (\<exists>l::byte. v = uint l)"
    by (auto simp: shift_left_or_def shift_left_def unpack_bytes_def push_bit_eq_mult
        split: option.splits if_splits)
  then show ?thesis
  proof
    assume "\<exists>h::byte. v = uint h * 256"
    then obtain h :: byte where "v = uint h * 256" ..
    then show ?thesis using b [of h] by simp
  next
    assume "\<exists>l::byte. v = uint l"
    then obtain l :: byte where "v = uint l" ..
    then show ?thesis using b [of l] by simp
  qed
qed

text \<open>
  The \<^verbatim>\<open>while True\<close> loop of \<^verbatim>\<open>_read_data\<close>: one \<^verbatim>\<open>Serial.read()\<close> per iteration,
  starting at read position \<open>pos\<close> with the elements received so far. The result is the
  outcome together with the read position after the last read.
\<close>

function read_data_loop ::
  "(nat \<Rightarrow> fragment) \<Rightarrow> nat \<Rightarrow> fragment list \<Rightarrow> (exn + int \<times> int list) \<times> nat" where
  "read_data_loop src pos received_data =
     (if 12 \<le> length (received_data @ [src pos]) then
        (case check_packet_header (received_data @ [src pos]) of
           Inl e \<Rightarrow> (Inl e, pos + 1)
         | Inr _ \<Rightarrow>
             (case shift_left_or ((received_data @ [src pos]) ! 7)
                                 ((received_data @ [src pos]) ! 8) of
                Inl e \<Rightarrow> (Inl e, pos + 1)
              | Inr packet_payload_length \<Rightarrow>
                  if int (length (received_data @ [src pos])) < packet_payload_length + 9
                  then read_data_loop src (pos + 1) (received_data @ [src pos])
                  else (complete_packet (received_data @ [src pos]) packet_payload_length,
                        pos + 1)))
      else read_data_loop src (pos + 1) (received_data @ [src pos]))"
  by pat_completeness auto
termination
proof (relation "measure (\<lambda>(src, pos, received_data). 65289 - length received_data)")
  show "wf (measure (\<lambda>(src, pos, received_data). 65289 - length received_data))"
    by simp
next
  fix src :: "nat \<Rightarrow> fragment" and pos :: nat and received_data :: "fragment list"
    and x :: unit and v :: int
  assume "shift_left_or ((received_data @ [src pos]) ! 7) ((received_data @ [src pos]) ! 8)
            = Inr v"
    and "int (length (received_data @ [src pos])) < v + 9"
  then show "((src, pos + 1, received_data @ [src pos]), (src, pos, received_data))
      \<in> measure (\<lambda>(src, pos, received_data). 65289 - length received_data)"
    using shift_left_or_bound [of _ _ v] by fastforce
next
  fix src :: "nat \<Rightarrow> fragment" and pos :: nat and received_data :: "fragment list"
  assume "\<not> 12 \<le> length (received_data @ [src pos])"
  then show "((src, pos + 1, received_data @ [src pos]), (src, pos, received_data))
      \<in> measure (\<lambda>(src, pos, received_data). 65289 - length received_data)"
    by simp
qed

declare read_data_loop.simps [simp del]

definition read_data :: "env \<Rightarrow> world \<Rightarrow> (exn + int \<times> int list) \<times> world" where
  "read_data E w =
     (case read_data_loop (source E) (rpos w) [] of
        (r, pos) \<Rightarrow> (r, w\<lparr>rpos := pos\<rparr>))"

section \<open>Command protocol engine\<close>

text \<open>
  Every command sends one \<^verbatim>\<open>COMMAND\<close> packet and then reads one packet back:
  \<^verbatim>\<open>self._send_data(data_type=DataType.COMMAND, payload=...)\<close> followed by
  \<^verbatim>\<open>data_type, payload = self._read_data()\<close>.
\<close>

definition exchange :: "env \<Rightarrow> int list \<Rightarrow> world \<Rightarrow> (exn + int \<times> int list) \<times> world" where
  "exchange E payload w =
     (case send_data E COMMAND payload w of
        (Inl e, w1) \<Rightarrow> (Inl e, w1)
      | (Inr _, w1) \<Rightarrow> read_data E w1)"

definition scan :: "env \<Rightarrow> world \<Rightarrow> (exn + unit) \<times> world" where
  "scan E w =
     (case exchange E [PayloadData_hex SCAN] w of
        (Inl e, w1) \<Rightarrow> (Inl e, w1)
      | (Inr (data_type, payload), w1) \<Rightarrow>
          (if data_type \<noteq> DataType_hex ACK then Inl InvalidPacket
           else case payload of
                  [] \<Rightarrow> Inl IndexError
                | code # _ \<Rightarrow>
                    if code = PayloadData_hex SUCCESS then Inr ()
                    else if code = Error_hex NO_FINGER_FOUND then Inl NoFingerFound
                    else if code = Error_hex COMMUNICATION then Inl CommunicationError
                    else if code = Error_hex READIMAGE then Inl ReadImageError
                    else Inl UnknownError,
           w1))"

definition buffer_image :: "env \<Rightarrow> CharBuffer \<Rightarrow> world \<Rightarrow> (exn + unit) \<times> world" where
  "buffer_image E char_buffer w =
     (case exchange E [PayloadData_hex BUFFER_IMAGE, CharBuffer_hex char_buffer] w of
        (Inl e, w1) \<Rightarrow> (Inl e, w1)
      | (Inr (data_type, payload), w1) \<Rightarrow>
          (if data_type \<noteq> DataType_hex ACK then Inl InvalidPacket
           else case payload of
                  [] \<Rightarrow> Inl IndexError
                | code # _ \<Rightarrow>
                    if code = PayloadData_hex SUCCESS then Inr ()
                    else if code = Error_hex COMMUNICATION then Inl CommunicationError
                    else if code = Error_hex MESSY_IMAGE then Inl MessyImageError
                    else if code = Error_hex FEW_FEATURE_POINTS then Inl FewFeaturePointsError
                    else if code = Error_hex INVALID_IMAGE then Inl InvalidImageError
                    else Inl UnknownError,
           w1))"

text \<open>
  \<^verbatim>\<open>_search_template\<close>, with \<^verbatim>\<open>start_pos = 0x0000\<close> and \<^verbatim>\<open>total_templates = 0x00A3\<close>.
  On success the position and the score are rebuilt from payload bytes 1, 2 and 3, 4.
\<close>

definition search_template :: "env \<Rightarrow> CharBuffer \<Rightarrow> world \<Rightarrow> (exn + int \<times> int) \<times> world" where
  "search_template E char_buffer w =
     (case exchange E
             [PayloadData_hex SEARCH_TEMPLATE, CharBuffer_hex char_buffer,
              shift_right 0x0000 8, shift_right 0x0000 0,
              shift_right 0x00A3 8, shift_right 0x00A3 0] w of
        (Inl e, w1) \<Rightarrow> (Inl e, w1)
      | (Inr (data_type, payload), w1) \<Rightarrow>
          (if data_type \<noteq> DataType_hex ACK then Inl InvalidPacket
           else case payload of
                  [] \<Rightarrow> Inl IndexError
                | code # _ \<Rightarrow>
                    if code = PayloadData_hex SUCCESS then
                      (case payload_shift_left_or payload 1 2 of
                         Inl e \<Rightarrow> Inl e
                       | Inr template_pos \<Rightarrow>
                           (case payload_shift_left_or payload 3 4 of
                              Inl e \<Rightarrow> Inl e
                            | Inr score \<Rightarrow> Inr (template_pos, score)))
                    else if code = Error_hex NO_TEMPLATE_FOUND then Inl NoTemplateFound
                    else if code = Error_hex COMMUNICATION then Inl CommunicationError
                    else Inl UnknownError,
           w1))"

definition count_fingers :: "env \<Rightarrow> world \<Rightarrow> (exn + int) \<times> world" where
  "count_fingers E w =
     (case exchange E [PayloadData_hex COUNT_TEMPLATES] w of
        (Inl e, w1) \<Rightarrow> (Inl e, w1)
      | (Inr (data_type, payload), w1) \<Rightarrow>
          (if data_type \<noteq> DataType_hex ACK then Inl InvalidPacket
           else case payload of
                  [] \<Rightarrow> Inl IndexError
                | code # _ \<Rightarrow>
                    if code = PayloadData_hex SUCCESS then payload_shift_left_or payload 1 2
                    else if code = Error_hex COMMUNICATION then Inl CommunicationError
                    else Inl UnknownError,
           w1))"

definition create_template :: "env \<Rightarrow> world \<Rightarrow> (exn + unit) \<times> world" where
  "create_template E w =
     (case exchange E [PayloadData_hex CREATE_TEMPLATE] w of
        (Inl e, w1) \<Rightarrow> (Inl e, w1)
      | (Inr (data_type, payload), w1) \<Rightarrow>
          (if data_type \<noteq> DataType_hex ACK then Inl InvalidPacket
           else case payload of
                  [] \<Rightarrow> Inl IndexError
                | code # _ \<Rightarrow>
                    if code = PayloadData_hex SUCCESS then Inr ()
                    else if code = Error_hex COMMUNICATION then Inl CommunicationError
                    else if code = Error_hex CHARACTERISTICS_MISMATCH
                      then Inl CharacteristicsMismatchError
                    else Inl UnknownError,
           w1))"

definition store_template :: "env \<Rightarrow> int \<Rightarrow> CharBuffer \<Rightarrow> world \<Rightarrow> (exn + int) \<times> world" where
  "store_template E position char_buffer w =
     (case exchange E
             [PayloadData_hex STORE_TEMPLATE, CharBuffer_hex char_buffer,
              shift_right position 8, shift_right position 0] w of
        (Inl e, w1) \<Rightarrow> (Inl e, w1)
      | (Inr (data_type, payload), w1) \<Rightarrow>
          (if data_type \<noteq> DataType_hex ACK then Inl InvalidPacket
           else case payload of
                  [] \<Rightarrow> Inl IndexError
                | code # _ \<Rightarrow>
                    if code = PayloadData_hex SUCCESS then Inr position
                    else if code = Error_hex COMMUNICATION then Inl CommunicationError
                    else if code = Error_hex INVALID_POSITION then Inl InvalidPosition
                    else if code = Error_hex FLASH then Inl FlashError
                    else Inl UnknownError,
           w1))"

text \<open>\<^verbatim>\<open>get_available_position\<close> returns the template count.\<close>

definition get_available_position :: "env \<Rightarrow> world \<Rightarrow> (exn + int) \<times> world" where
  "get_available_position E w = count_fingers E w"

section \<open>Sensor workflow\<close>

subsection \<open>The detection loop\<close>

text \<open>
  One iteration of the \<^verbatim>\<open>while True\<close> loop of \<^verbatim>\<open>read\<close>: \<open>Exit (Inr ())\<close> is the
  \<^verbatim>\<open>break\<close>, \<open>Exit (Inl e)\<close> a raised exception, \<open>Again\<close> the next iteration.
  The clock is read only when \<^verbatim>\<open>timeout\<close> is truthy (neither \<^verbatim>\<open>None\<close> nor zero).
\<close>

datatype poll = Again world | Exit "exn + unit" world

definition read_poll :: "env \<Rightarrow> int option \<Rightarrow> int \<Rightarrow> world \<Rightarrow> poll" where
  "read_poll E timeout start_time w =
     (case scan E w of
        (Inr _, w1) \<Rightarrow> Exit (Inr ()) w1
      | (Inl e, w1) \<Rightarrow>
          if e = NoFingerFound then
            (if kill_read_finger w1 then
               (case count_fingers E (set_status FREE (w1\<lparr>kill_read_finger := False\<rparr>)) of
                  (Inl e', w2) \<Rightarrow> Exit (Inl e') w2
                | (Inr _, w2) \<Rightarrow> Exit (Inl KillSignal) w2)
             else
               (case timeout of
                  None \<Rightarrow> Again w1
                | Some t \<Rightarrow>
                    if t = 0 then Again w1
                    else
                      (case get_current_timestamp E w1 of
                         (now, w2) \<Rightarrow>
                           if now - start_time \<ge> t then
                             (case count_fingers E (set_status FREE w2) of
                                (Inl e', w3) \<Rightarrow> Exit (Inl e') w3
                              | (Inr _, w3) \<Rightarrow> Exit (Inl NoFingerFound) w3)
                           else Again w2)))
          else Exit (Inl ReadInputError) (set_status FREE w1))"

text \<open>The loop itself; \<open>None\<close> means that it never returns.\<close>

partial_function (option) read_loop ::
  "env \<Rightarrow> int option \<Rightarrow> int \<Rightarrow> world \<Rightarrow> ((exn + unit) \<times> world) option" where
  "read_loop E timeout start_time w =
     (case read_poll E timeout start_time w of
        Again w' \<Rightarrow> read_loop E timeout start_time w'
      | Exit r w' \<Rightarrow> Some (r, w'))"

definition read :: "env \<Rightarrow> int option \<Rightarrow> world \<Rightarrow> ((exn + unit) \<times> world) option" where
  "read E timeout w =
     (case get_current_timestamp E (set_status BUSY w) of
        (start_time, w1) \<Rightarrow>
          (case read_loop E timeout start_time w1 of
             None \<Rightarrow> None
           | Some (Inl e, w2) \<Rightarrow> Some (Inl e, w2)
           | Some (Inr _, w2) \<Rightarrow> Some (Inr (), set_status FREE w2)))"

subsection \<open>Verify and enroll\<close>

text \<open>The two \<^verbatim>\<open>except\<close> clauses of \<^verbatim>\<open>check_finger\<close>.\<close>

definition check_finger_except :: "exn \<Rightarrow> exn" where
  "check_finger_except e =
     (if e = NoFingerFound then NoFingerFound
      else if e = NoTemplateFound then FingerNotFound
      else e)"

definition check_finger ::
  "env \<Rightarrow> int option \<Rightarrow> world \<Rightarrow> ((exn + int \<times> int) \<times> world) option" where
  "check_finger E timeout w =
     (case read E timeout w of
        None \<Rightarrow> None
      | Some (Inl e, w1) \<Rightarrow> Some (Inl (check_finger_except e), w1)
      | Some (Inr _, w1) \<Rightarrow>
          (case buffer_image E READ w1 of
             (Inl e, w2) \<Rightarrow> Some (Inl (check_finger_except e), w2)
           | (Inr _, w2) \<Rightarrow>
               (case search_template E READ w2 of
                  (Inl e, w3) \<Rightarrow> Some (Inl (check_finger_except e), w3)
                | (Inr found, w3) \<Rightarrow> Some (Inr found, w3))))"

text \<open>The body of the \<^verbatim>\<open>try\<close> statement of \<^verbatim>\<open>_store_finger\<close>.\<close>

definition store_finger_try ::
  "env \<Rightarrow> int option \<Rightarrow> world \<Rightarrow> ((exn + int) \<times> world) option" where
  "store_finger_try E position w =
     (case read E None w of
        None \<Rightarrow> None
      | Some (Inl e, w1) \<Rightarrow> Some (Inl e, w1)
      | Some (Inr _, w1) \<Rightarrow>
          (case buffer_image E WRITE w1 of
             (Inl e, w2) \<Rightarrow> Some (Inl e, w2)
           | (Inr _, w2) \<Rightarrow>
               (case create_template E w2 of
                  (Inl e, w3) \<Rightarrow> Some (Inl e, w3)
                | (Inr _, w3) \<Rightarrow>
                    (case (case position of
                             Some p \<Rightarrow> (Inr p, w3)
                           | None \<Rightarrow> get_available_position E w3) of
                       (Inl e, w4) \<Rightarrow> Some (Inl e, w4)
                     | (Inr available_position, w4) \<Rightarrow>
                         Some (store_template E available_position WRITE w4)))))"

text \<open>
  Its \<^verbatim>\<open>except\<close> clauses: \<^verbatim>\<open>NoAvailablePositionFound\<close> is logged and the function then
  ends without a \<^verbatim>\<open>return\<close> statement (the caller gets \<^verbatim>\<open>None\<close>); any other exception
  is logged and raised again.
\<close>

definition store_finger_except :: "(exn + int) \<times> world \<Rightarrow> (exn + int option) \<times> world" where
  "store_finger_except r =
     (case r of
        (Inr stored, w) \<Rightarrow> (Inr (Some stored), w)
      | (Inl e, w) \<Rightarrow>
          if e = NoAvailablePositionFound then (Inr None, w) else (Inl e, w))"

definition store_finger ::
  "env \<Rightarrow> int option \<Rightarrow> world \<Rightarrow> ((exn + int option) \<times> world) option" where
  "store_finger E position w = map_option store_finger_except (store_finger_try E position w)"

definition register ::
  "env \<Rightarrow> int option \<Rightarrow> int option \<Rightarrow> world \<Rightarrow> ((exn + int option) \<times> world) option" where
  "register E position timeout w =
     (if status w \<noteq> FREE then Some (Inl SensorIsBusy, w)
      else case check_finger E timeout w of
             None \<Rightarrow> None
           | Some (Inr _, w1) \<Rightarrow> Some (Inl FingerExists, w1)
           | Some (Inl e, w1) \<Rightarrow>
               if e = NoFingerFound then Some (Inl NoFingerFound, w1)
               else if e = FingerNotFound then store_finger E position w1
               else Some (Inl e, w1))"

section \<open>Test transports\<close>

text \<open>A byte source that delivers the given bytes and then only times out.\<close>

definition fake_source :: "byte list \<Rightarrow> nat \<Rightarrow> fragment" where
  "fake_source bs n = (if n < length bs then Some (bs ! n) else None)"

text \<open>A byte source scripted with fragments, zero-byte reads in between included.\<close>

definition scripted_source :: "fragment list \<Rightarrow> nat \<Rightarrow> fragment" where
  "scripted_source fs n = (if n < length fs then fs ! n else None)"

text \<open>A device that answers every exchange with the same frame.\<close>

definition repeating_source :: "byte list \<Rightarrow> nat \<Rightarrow> fragment" where
  "repeating_source frame n = Some (frame ! (n mod length frame))"

definition fresh :: world where
  "fresh = \<lparr>rpos = 0, ticks = 0, written = [], sent = [], status = FREE,
            kill_read_finger = False, events = []\<rparr>"

text \<open>The bytes \<^verbatim>\<open>_send_data\<close> writes for a packet, on a port nothing was written to.\<close>

definition encode :: "int \<Rightarrow> DataType \<Rightarrow> int list \<Rightarrow> byte list" where
  "encode addr data_type payload =
     written (snd (send_data \<lparr>address = addr, source = (\<lambda>_. None), clock = (\<lambda>_. 0)\<rparr>
                      data_type payload fresh))"

text \<open>\<^verbatim>\<open>_read_data\<close> on a byte source, from its first byte.\<close>

definition decode_stream :: "(nat \<Rightarrow> fragment) \<Rightarrow> exn + int \<times> int list" where
  "decode_stream src = fst (read_data_loop src 0 [])"

text \<open>
  The twelve reads from position \<open>p\<close> deliver an acknowledgement whose only payload
  byte is the no-finger code: start marker, any four address bytes, type \<open>0x07\<close>,
  length 3, code \<open>0x02\<close>, checksum \<open>0x000C\<close>.
\<close>

definition no_finger_reply :: "(nat \<Rightarrow> fragment) \<Rightarrow> nat \<Rightarrow> bool" where
  "no_finger_reply src p =
     (src p = Some 0xEF \<and> src (p + 1) = Some 0x01 \<and> src (p + 6) = Some 0x07
      \<and> src (p + 7) = Some 0x00 \<and> src (p + 8) = Some 0x03 \<and> src (p + 9) = Some 0x02
      \<and> src (p + 10) = Some 0x00 \<and> src (p + 11) = Some 0x0C)"

text \<open>
  The checksum \<^verbatim>\<open>_send_data\<close> accumulates for a packet: the data type, the two bytes of
  the length field (the payload length plus 2) and the payload bytes.
\<close>

definition packet_checksum :: "DataType \<Rightarrow> int list \<Rightarrow> int" where
  "packet_checksum data_type payload =
     DataType_hex data_type + shift_right (int (length payload) + 2) 8
       + shift_right (int (length payload) + 2) 0 + sum_list payload"

text \<open>
  The values \<^verbatim>\<open>_send_data\<close> packs and writes, in order: start marker, address, data
  type, length field, payload, checksum.
\<close>

definition frame_layout :: "int \<Rightarrow> DataType \<Rightarrow> int list \<Rightarrow> int list" where
  "frame_layout addr data_type payload =
     [shift_right (PayloadData_hex START_BIT) 8, shift_right (PayloadData_hex START_BIT) 0,
      shift_right addr 24, shift_right addr 16, shift_right addr 8, shift_right addr 0,
      DataType_hex data_type,
      shift_right (int (length payload) + 2) 8, shift_right (int (length payload) + 2) 0]
     @ payload
     @ [shift_right (packet_checksum data_type payload) 8,
        shift_right (packet_checksum data_type payload) 0]"

text \<open>
  The packet read from position \<open>p\<close> is a successful answer to count-templates from which
  the code reads the count \<open>c\<close>.
\<close>

definition count_reply :: "(nat \<Rightarrow> fragment) \<Rightarrow> nat \<Rightarrow> int \<Rightarrow> bool" where
  "count_reply src p c =
     (case fst (read_data_loop src p []) of
        Inl _ \<Rightarrow> False
      | Inr (data_type, payload) \<Rightarrow>
          data_type = DataType_hex ACK
          \<and> (case payload of
               [] \<Rightarrow> False
             | code # _ \<Rightarrow>
                 code = PayloadData_hex SUCCESS \<and> payload_shift_left_or payload 1 2 = Inr c))"

text \<open>A device that answers every exchange with the no-finger acknowledgement.\<close>

definition no_finger_device :: "nat \<Rightarrow> fragment" where
  "no_finger_device = repeating_source (encode 0xFFFFFFFF ACK [Error_hex NO_FINGER_FOUND])"

text \<open>
  A two-byte value that \<^verbatim>\<open>_shift_left(hi, 8) or _shift_left(lo, 0)\<close> rebuilds from its
  two bytes: it fits 16 bits and its high byte or its low byte is zero.
\<close>

definition rebuilt_by_or :: "int \<Rightarrow> bool" where
  "rebuilt_by_or v = (0 \<le> v \<and> v < 65536 \<and> (v < 256 \<or> v mod 256 = 0))"


section \<open>Supporting lemmas\<close>

subsection \<open>What an exchange leaves unchanged, and what it can raise\<close>

lemma set_status_fields [simp]:
  "status (set_status s w) = s" "rpos (set_status s w) = rpos w"
  "ticks (set_status s w) = ticks w" "written (set_status s w) = written w"
  "sent (set_status s w) = sent w" "kill_read_finger (set_status s w) = kill_read_finger w"
  "events (set_status s w) = events w @ [Mode s]"
  by (simp_all add: set_status_def)

lemma write_packed_keeps:
  "rpos (snd (write_packed xs w)) = rpos w \<and> ticks (snd (write_packed xs w)) = ticks w
   \<and> sent (snd (write_packed xs w)) = sent w \<and> status (snd (write_packed xs w)) = status w
   \<and> kill_read_finger (snd (write_packed xs w)) = kill_read_finger w"
  by (induction xs arbitrary: w) (auto simp: serial_write_def split: sum.splits)

lemma send_payload_keeps:
  "rpos (snd (send_payload xs c w)) = rpos w \<and> ticks (snd (send_payload xs c w)) = ticks w
   \<and> sent (snd (send_payload xs c w)) = sent w \<and> status (snd (send_payload xs c w)) = status w
   \<and> kill_read_finger (snd (send_payload xs c w)) = kill_read_finger w"
  by (induction xs arbitrary: c w) (auto simp: serial_write_def split: sum.splits)

lemma write_packed_err: "fst (write_packed xs w) = Inl e \<Longrightarrow> e = StructError"
  by (induction xs arbitrary: w) (auto simp: pack_bytes_def split: sum.splits if_splits)

lemma send_payload_err: "fst (send_payload xs c w) = Inl e \<Longrightarrow> e = StructError"
  by (induction xs arbitrary: c w) (auto simp: pack_bytes_def split: sum.splits if_splits)

lemma send_data_keeps:
  "rpos (snd (send_data E dt p w)) = rpos w \<and> ticks (snd (send_data E dt p w)) = ticks w
   \<and> sent (snd (send_data E dt p w)) = sent w @ [(dt, p)]
   \<and> status (snd (send_data E dt p w)) = status w
   \<and> kill_read_finger (snd (send_data E dt p w)) = kill_read_finger w"
proof -
  let ?w = "w\<lparr>sent := sent w @ [(dt, p)], events := events w @ [Sent dt p]\<rparr>"
  let ?hdr = "[shift_right (PayloadData_hex START_BIT) 8,
                 shift_right (PayloadData_hex START_BIT) 0,
                 shift_right (address E) 24,
                 shift_right (address E) 16,
                 shift_right (address E) 8,
                 shift_right (address E) 0,
                 DataType_hex dt,
                 shift_right (int (length p) + 2) 8,
                 shift_right (int (length p) + 2) 0]"
  obtain r1 w1 where 1: "write_packed ?hdr ?w = (r1, w1)" by fastforce
  obtain r2 w2 where 2: "send_payload p (DataType_hex dt + shift_right (int (length p) + 2) 8
                        + shift_right (int (length p) + 2) 0) w1 = (r2, w2)" by fastforce
  have k1: "rpos w1 = rpos w \<and> ticks w1 = ticks w \<and> sent w1 = sent w @ [(dt, p)]
     \<and> status w1 = status w \<and> kill_read_finger w1 = kill_read_finger w"
    using write_packed_keeps [of ?hdr ?w] 1 by simp
  have k2: "rpos w2 = rpos w1 \<and> ticks w2 = ticks w1 \<and> sent w2 = sent w1
     \<and> status w2 = status w1 \<and> kill_read_finger w2 = kill_read_finger w1"
    using send_payload_keeps [of p "DataType_hex dt + shift_right (int (length p) + 2) 8
                        + shift_right (int (length p) + 2) 0" w1] 2 by simp
  show ?thesis
  proof (cases r1)
    case (Inl e)
    then show ?thesis
      using 1 k1 by (simp add: send_data_def Let_def del: write_packed.simps)
  next
    case r1: (Inr u)
    show ?thesis
    proof (cases r2)
      case (Inl e)
      then show ?thesis
        using 1 2 r1 k1 k2 by (simp add: send_data_def Let_def del: write_packed.simps)
    next
      case (Inr c)
      then show ?thesis
        using 1 2 r1 k1 k2 write_packed_keeps [of "[shift_right c 8, shift_right c 0]" w2]
        by (simp add: send_data_def Let_def del: write_packed.simps)
    qed
  qed
qed

lemma send_data_err: "fst (send_data E dt p w) = Inl e \<Longrightarrow> e = StructError"
proof -
  have a: "write_packed xs v = (Inl e', v') \<Longrightarrow> e' = StructError" for xs v e' v'
    using write_packed_err [of xs v e'] by simp
  have b: "send_payload xs c v = (Inl e', v') \<Longrightarrow> e' = StructError" for xs c v e' v'
    using send_payload_err [of xs c v e'] by simp
  assume "fst (send_data E dt p w) = Inl e"
  then show ?thesis
    by (auto simp: send_data_def Let_def simp del: write_packed.simps
        split: sum.splits prod.splits dest: a b write_packed_err)
qed

lemma read_data_loop_err:
  "fst (read_data_loop src p rd) = Inl e \<Longrightarrow> e \<in> {InvalidPacket, TypeError, CorruptedPacket}"
proof (induction src p rd rule: read_data_loop.induct)
  case (1 src pos rd)
  have cs: "checksum_start a b c = Inl e' \<Longrightarrow> e' = TypeError" for a b c e'
    by (auto simp: checksum_start_def split: option.splits)
  have cp: "collect_payload fs c pl = Inl e' \<Longrightarrow> e' = TypeError" for fs c pl e'
    by (induction fs arbitrary: c pl) (auto split: option.splits)
  have so: "shift_left_or a b = Inl e' \<Longrightarrow> e' = TypeError" for a b e'
    by (auto simp: shift_left_or_def split: option.splits if_splits)
  have ck: "check_packet_header xs = Inl e' \<Longrightarrow> e' = InvalidPacket" for xs e'
    by (auto simp: check_packet_header_def split: if_splits)
  have co: "complete_packet xs n = Inl e' \<Longrightarrow> e' \<in> {TypeError, CorruptedPacket}" for xs n e'
    by (auto simp: complete_packet_def Let_def split: sum.splits prod.splits if_splits
        dest: cs cp so)
  from "1.prems" "1.IH" show ?case
    by (subst (asm) read_data_loop.simps)
       (auto split: if_splits sum.splits dest: so ck co)
qed

lemma read_data_keeps:
  "ticks (snd (read_data E w)) = ticks w \<and> sent (snd (read_data E w)) = sent w
   \<and> written (snd (read_data E w)) = written w
   \<and> status (snd (read_data E w)) = status w
   \<and> kill_read_finger (snd (read_data E w)) = kill_read_finger w"
  by (simp add: read_data_def split: prod.splits)

lemma read_data_err:
  "fst (read_data E w) = Inl e \<Longrightarrow> e \<in> {InvalidPacket, TypeError, CorruptedPacket}"
  using read_data_loop_err [of "source E" "rpos w" "[]" e]
  by (simp add: read_data_def split: prod.splits)

lemma exchange_keeps:
  "ticks (snd (exchange E p w)) = ticks w \<and> sent (snd (exchange E p w)) = sent w @ [(COMMAND, p)]
   \<and> status (snd (exchange E p w)) = status w
   \<and> kill_read_finger (snd (exchange E p w)) = kill_read_finger w"
proof -
  obtain r1 w1 where 1: "send_data E COMMAND p w = (r1, w1)" by fastforce
  show ?thesis
    using 1 send_data_keeps [of E COMMAND p w] read_data_keeps [of E w1]
    by (cases r1) (simp_all add: exchange_def)
qed

lemma exchange_err:
  "fst (exchange E p w) = Inl e \<Longrightarrow> e \<in> {StructError, InvalidPacket, TypeError, CorruptedPacket}"
proof -
  obtain r1 w1 where 1: "send_data E COMMAND p w = (r1, w1)" by fastforce
  assume "fst (exchange E p w) = Inl e"
  then show ?thesis
    using 1 send_data_err [of E COMMAND p w e] read_data_err [of E w1 e]
    by (cases r1) (auto simp: exchange_def)
qed

subsection \<open>The commands\<close>

lemma exchange_raises:
  "exchange E p w = (Inl e, w') \<Longrightarrow>
     e \<in> {StructError, InvalidPacket, TypeError, CorruptedPacket}"
  using exchange_err [of E p w e] by simp

lemma snd_scan: "snd (scan E w) = snd (exchange E [PayloadData_hex SCAN] w)"
  by (simp add: scan_def split: prod.splits sum.splits)

lemma snd_count_fingers:
  "snd (count_fingers E w) = snd (exchange E [PayloadData_hex COUNT_TEMPLATES] w)"
  by (simp add: count_fingers_def split: prod.splits sum.splits)

lemma snd_buffer_image:
  "snd (buffer_image E cb w)
     = snd (exchange E [PayloadData_hex BUFFER_IMAGE, CharBuffer_hex cb] w)"
  by (simp add: buffer_image_def split: prod.splits sum.splits)

lemma snd_search_template:
  "snd (search_template E cb w)
     = snd (exchange E [PayloadData_hex SEARCH_TEMPLATE, CharBuffer_hex cb,
              shift_right 0x0000 8, shift_right 0x0000 0,
              shift_right 0x00A3 8, shift_right 0x00A3 0] w)"
  by (simp add: search_template_def split: prod.splits sum.splits)

lemma snd_create_template:
  "snd (create_template E w) = snd (exchange E [PayloadData_hex CREATE_TEMPLATE] w)"
  by (simp add: create_template_def split: prod.splits sum.splits)

lemma snd_store_template:
  "snd (store_template E pos cb w)
     = snd (exchange E [PayloadData_hex STORE_TEMPLATE, CharBuffer_hex cb,
              shift_right pos 8, shift_right pos 0] w)"
  by (simp add: store_template_def split: prod.splits sum.splits)

lemma scan_keeps:
  "ticks (snd (scan E w)) = ticks w
   \<and> sent (snd (scan E w)) = sent w @ [(COMMAND, [PayloadData_hex SCAN])]
   \<and> status (snd (scan E w)) = status w
   \<and> kill_read_finger (snd (scan E w)) = kill_read_finger w"
  unfolding snd_scan by (rule exchange_keeps)

lemma count_fingers_keeps:
  "ticks (snd (count_fingers E w)) = ticks w
   \<and> sent (snd (count_fingers E w)) = sent w @ [(COMMAND, [PayloadData_hex COUNT_TEMPLATES])]
   \<and> status (snd (count_fingers E w)) = status w
   \<and> kill_read_finger (snd (count_fingers E w)) = kill_read_finger w"
  unfolding snd_count_fingers by (rule exchange_keeps)

lemma count_fingers_err:
  "fst (count_fingers E w) = Inl e \<Longrightarrow>
     e \<in> {StructError, InvalidPacket, TypeError, CorruptedPacket, IndexError,
          CommunicationError, UnknownError}"
  by (auto simp: count_fingers_def payload_shift_left_or_def
      split: prod.splits sum.splits list.splits if_splits dest: exchange_raises)





subsection \<open>One poll of the detection loop, and the loop\<close>

lemma read_poll_Again:
  assumes "read_poll E t s w = Again w'"
  shows "status w' = status w \<and> \<not> kill_read_finger w \<and> \<not> kill_read_finger w'
     \<and> sent w' = sent w @ [(COMMAND, [PayloadData_hex SCAN])]
     \<and> fst (scan E w) = Inl NoFingerFound"
proof -
  obtain r1 w1 where 1: "scan E w = (r1, w1)" by fastforce
  have k: "ticks w1 = ticks w \<and> sent w1 = sent w @ [(COMMAND, [PayloadData_hex SCAN])]
     \<and> status w1 = status w \<and> kill_read_finger w1 = kill_read_finger w"
    using scan_keeps [of E w] 1 by simp
  show ?thesis
    using assms 1 k
    by (auto simp: read_poll_def get_current_timestamp_def
        split: sum.splits prod.splits if_splits option.splits)
qed

lemma read_poll_Exit:
  assumes "read_poll E t s w = Exit r w'"
  shows "(r = Inr () \<and> status w' = status w
            \<and> sent w' = sent w @ [(COMMAND, [PayloadData_hex SCAN])])
       \<or> (r = Inl ReadInputError \<and> status w' = FREE
            \<and> sent w' = sent w @ [(COMMAND, [PayloadData_hex SCAN])])
       \<or> (\<exists>e. r = Inl e \<and> e \<noteq> ReadInputError \<and> status w' = FREE
            \<and> sent w' = sent w @ [(COMMAND, [PayloadData_hex SCAN]),
                                   (COMMAND, [PayloadData_hex COUNT_TEMPLATES])])"
proof -
  obtain r1 w1 where 1: "scan E w = (r1, w1)" by fastforce
  have k: "ticks w1 = ticks w \<and> sent w1 = sent w @ [(COMMAND, [PayloadData_hex SCAN])]
     \<and> status w1 = status w \<and> kill_read_finger w1 = kill_read_finger w"
    using scan_keeps [of E w] 1 by simp
  have c: "count_fingers E v = (rc, v') \<Longrightarrow>
      sent v' = sent v @ [(COMMAND, [PayloadData_hex COUNT_TEMPLATES])]
      \<and> status v' = status v \<and> kill_read_finger v' = kill_read_finger v
      \<and> rc \<noteq> Inl ReadInputError" for v rc v'
    using count_fingers_keeps [of E v] count_fingers_err [of E v ReadInputError] by auto
  show ?thesis
    using assms 1 k
    by (auto simp: read_poll_def get_current_timestamp_def set_status_def
        split: sum.splits prod.splits if_splits option.splits dest!: c)
qed

lemma read_poll_Exit_no_timeout:
  assumes "read_poll E t s w = Exit r w'" and "t = None \<or> t = Some 0"
  shows "r \<noteq> Inl NoFingerFound"
proof -
  obtain r1 w1 where 1: "scan E w = (r1, w1)" by fastforce
  have c: "count_fingers E v = (rc, v') \<Longrightarrow> rc \<noteq> Inl NoFingerFound" for v rc v'
    using count_fingers_err [of E v NoFingerFound] by auto
  show ?thesis
    using assms 1
    by (auto simp: read_poll_def split: sum.splits prod.splits if_splits dest!: c)
qed

lemma read_poll_zero: "read_poll E (Some 0) s w = read_poll E None s w"
  by (simp add: read_poll_def split: prod.splits sum.splits)

lemma read_loop_Again:
  "read_poll E t s w = Again w' \<Longrightarrow> read_loop E t s w = read_loop E t s w'"
  by (subst read_loop.simps) simp

lemma read_loop_Exit:
  "read_poll E t s w = Exit r w' \<Longrightarrow> read_loop E t s w = Some (r, w')"
  by (subst read_loop.simps) simp

lemma read_loop_exit_status:
  assumes "read_loop E t s w = Some y"
  shows "(case fst y of Inr _ \<Rightarrow> status (snd y) = status w | Inl _ \<Rightarrow> status (snd y) = FREE)"
proof (rule read_loop.raw_induct
    [where P = "\<lambda>E t s w y. (case fst y of Inr _ \<Rightarrow> status (snd y) = status w
                                           | Inl _ \<Rightarrow> status (snd y) = FREE)",
     OF _ assms])
  fix loop E t s w y
  assume IH: "\<And>E t s w y. loop E t s w = Some y \<Longrightarrow>
      (case fst y of Inr _ \<Rightarrow> status (snd y) = status w | Inl _ \<Rightarrow> status (snd y) = FREE)"
    and body: "(case read_poll E t s w of Again w' \<Rightarrow> loop E t s w'
                | Exit r w' \<Rightarrow> Some (r, w')) = Some y"
  show "case fst y of Inr _ \<Rightarrow> status (snd y) = status w | Inl _ \<Rightarrow> status (snd y) = FREE"
  proof (cases "read_poll E t s w")
    case (Again w')
    with body have "loop E t s w' = Some y" by simp
    from IH [OF this] show ?thesis
      using read_poll_Again [OF Again] by (simp split: sum.splits)
  next
    case (Exit r w')
    with body have "y = (r, w')" by simp
    then show ?thesis using read_poll_Exit [OF Exit] by auto
  qed
qed

subsection \<open>The frame layout and the no-finger reply\<close>

lemma shift_right_range: "0 \<le> shift_right x y \<and> shift_right x y \<le> 255"
  by (simp add: shift_right_def AND_upper2')

lemma pack_bytes_shift_right:
  "pack_bytes (shift_right x y) = Inr (word_of_int (shift_right x y))"
  using shift_right_range [of x y] by (simp add: pack_bytes_def)

lemma DataType_hex_range: "0 \<le> DataType_hex dt \<and> DataType_hex dt \<le> 255"
  by (cases dt) simp_all

lemma write_packed_ok:
  "\<forall>x\<in>set xs. 0 \<le> x \<and> x \<le> 255 \<Longrightarrow>
     write_packed xs w = (Inr (), w\<lparr>written := written w @ map word_of_int xs\<rparr>)"
  by (induction xs arbitrary: w) (simp_all add: pack_bytes_def serial_write_def)

lemma send_payload_ok:
  "\<forall>x\<in>set xs. 0 \<le> x \<and> x \<le> 255 \<Longrightarrow>
     send_payload xs c w
       = (Inr (c + sum_list xs), w\<lparr>written := written w @ map word_of_int xs\<rparr>)"
  by (induction xs arbitrary: c w) (simp_all add: pack_bytes_def serial_write_def)

lemma send_data_ok:
  assumes "\<forall>x\<in>set payload. 0 \<le> x \<and> x \<le> 255"
  shows "send_data E dt payload w
           = (Inr (), w\<lparr>sent := sent w @ [(dt, payload)],
                        events := events w @ [Sent dt payload],
                        written := written w
                          @ map word_of_int (frame_layout (address E) dt payload)\<rparr>)"
proof -
  let ?L = "int (length payload) + 2"
  let ?hdr = "[shift_right (PayloadData_hex START_BIT) 8,
               shift_right (PayloadData_hex START_BIT) 0,
               shift_right (address E) 24, shift_right (address E) 16,
               shift_right (address E) 8, shift_right (address E) 0,
               DataType_hex dt, shift_right ?L 8, shift_right ?L 0]"
  let ?S = "packet_checksum dt payload"
  have h: "\<forall>x\<in>set ?hdr. 0 \<le> x \<and> x \<le> 255"
    using shift_right_range DataType_hex_range [of dt] by auto
  have c: "\<forall>x\<in>set [shift_right z 8, shift_right z 0]. 0 \<le> x \<and> x \<le> 255" for z
    using shift_right_range by auto
  show ?thesis
    unfolding send_data_def Let_def
    by (simp only: write_packed_ok [OF h] send_payload_ok [OF assms] write_packed_ok [OF c]
          prod.case sum.case)
       (simp add: frame_layout_def packet_checksum_def)
qed

lemma read_no_finger_reply:
  assumes "no_finger_reply src p"
  shows "read_data_loop src p [] = (Inr (DataType_hex ACK, [Error_hex NO_FINGER_FOUND]), p + 12)"
proof -
  have s: "src p = Some 0xEF"
    "src (Suc p) = Some 0x01"
    "src (Suc (Suc (Suc (Suc (Suc (Suc p)))))) = Some 0x07"
    "src (Suc (Suc (Suc (Suc (Suc (Suc (Suc p))))))) = Some 0x00"
    "src (Suc (Suc (Suc (Suc (Suc (Suc (Suc (Suc p)))))))) = Some 0x03"
    "src (Suc (Suc (Suc (Suc (Suc (Suc (Suc (Suc (Suc p))))))))) = Some 0x02"
    "src (Suc (Suc (Suc (Suc (Suc (Suc (Suc (Suc (Suc (Suc p)))))))))) = Some 0x00"
    "src (Suc (Suc (Suc (Suc (Suc (Suc (Suc (Suc (Suc (Suc (Suc p))))))))))) = Some 0x0C"
    using assms by (simp_all add: no_finger_reply_def eval_nat_numeral)
  show ?thesis
    by (simp add: read_data_loop.simps s check_packet_header_def differs_def unpack_bytes_def
        shift_right_def shift_left_or_def shift_left_def complete_packet_def
        checksum_start_def)
qed

subsection \<open>Polls against a device that reports no finger\<close>

lemma exchange_result:
  assumes "\<forall>x\<in>set p. 0 \<le> x \<and> x \<le> 255"
  shows "fst (exchange E p w) = fst (read_data_loop (source E) (rpos w) [])
       \<and> rpos (snd (exchange E p w)) = snd (read_data_loop (source E) (rpos w) [])"
  by (simp add: exchange_def send_data_ok [OF assms] read_data_def split: prod.splits)

lemma fst_scan:
  "fst (scan E w) =
     (case fst (read_data_loop (source E) (rpos w) []) of
        Inl e \<Rightarrow> Inl e
      | Inr (data_type, payload) \<Rightarrow>
          if data_type \<noteq> DataType_hex ACK then Inl InvalidPacket
          else case payload of
                 [] \<Rightarrow> Inl IndexError
               | code # _ \<Rightarrow>
                   if code = PayloadData_hex SUCCESS then Inr ()
                   else if code = Error_hex NO_FINGER_FOUND then Inl NoFingerFound
                   else if code = Error_hex COMMUNICATION then Inl CommunicationError
                   else if code = Error_hex READIMAGE then Inl ReadImageError
                   else Inl UnknownError)"
proof -
  obtain r v where x: "exchange E [PayloadData_hex SCAN] w = (r, v)" by fastforce
  have "r = fst (read_data_loop (source E) (rpos w) [])"
    using exchange_result [of "[PayloadData_hex SCAN]" E w] x by simp
  then show ?thesis
    using x by (simp add: scan_def split: sum.splits prod.splits)
qed

lemma rpos_scan: "rpos (snd (scan E w)) = snd (read_data_loop (source E) (rpos w) [])"
  using exchange_result [of "[PayloadData_hex SCAN]" E w] by (simp add: snd_scan)

lemma rpos_count_fingers:
  "rpos (snd (count_fingers E w)) = snd (read_data_loop (source E) (rpos w) [])"
  using exchange_result [of "[PayloadData_hex COUNT_TEMPLATES]" E w]
  by (simp add: snd_count_fingers)

lemma count_fingers_reply:
  assumes "count_reply (source E) (rpos w) c"
  shows "fst (count_fingers E w) = Inr c"
proof -
  obtain r v where x: "exchange E [PayloadData_hex COUNT_TEMPLATES] w = (r, v)" by fastforce
  have "r = fst (read_data_loop (source E) (rpos w) [])"
    using exchange_result [of "[PayloadData_hex COUNT_TEMPLATES]" E w] x by simp
  then show ?thesis
    using x assms
    by (auto simp: count_fingers_def count_reply_def split: sum.splits prod.splits list.splits)
qed

lemma scan_no_finger:
  assumes "no_finger_reply (source E) (rpos w)"
  shows "fst (scan E w) = Inl NoFingerFound \<and> rpos (snd (scan E w)) = rpos w + 12"
  by (simp add: fst_scan rpos_scan read_no_finger_reply [OF assms])

lemma poll_untimed:
  assumes "fst (scan E w) = Inl NoFingerFound" and "\<not> kill_read_finger w"
    and "t = None \<or> t = Some 0"
  shows "read_poll E t s w = Again (snd (scan E w))"
  using assms scan_keeps [of E w]
  by (cases "scan E w") (auto simp: read_poll_def)

lemma poll_early:
  assumes "fst (scan E w) = Inl NoFingerFound" and "\<not> kill_read_finger w"
    and "T \<noteq> 0" and "clock E (ticks w) - s < T"
  shows "read_poll E (Some T) s w = Again ((snd (scan E w))\<lparr>ticks := ticks w + 1\<rparr>)"
  using assms scan_keeps [of E w]
  by (cases "scan E w") (auto simp: read_poll_def get_current_timestamp_def)

lemma poll_late:
  assumes "fst (scan E w) = Inl NoFingerFound" and "\<not> kill_read_finger w"
    and "T \<noteq> 0" and "clock E (ticks w) - s \<ge> T"
  shows "read_poll E (Some T) s w =
     (case count_fingers E (set_status FREE ((snd (scan E w))\<lparr>ticks := ticks w + 1\<rparr>)) of
        (Inl e, w') \<Rightarrow> Exit (Inl e) w'
      | (Inr _, w') \<Rightarrow> Exit (Inl NoFingerFound) w')"
  using assms scan_keeps [of E w]
  by (cases "scan E w") (auto simp: read_poll_def get_current_timestamp_def)

lemma poll_kill:
  assumes "fst (scan E w) = Inl NoFingerFound" and "kill_read_finger w"
  shows "read_poll E t s w =
     (case count_fingers E
             (set_status FREE ((snd (scan E w))\<lparr>kill_read_finger := False\<rparr>)) of
        (Inl e, w') \<Rightarrow> Exit (Inl e) w'
      | (Inr _, w') \<Rightarrow> Exit (Inl KillSignal) w')"
  using assms scan_keeps [of E w]
  by (cases "scan E w") (auto simp: read_poll_def)

subsection \<open>Runs of the detection loop without a timeout\<close>

lemma read_loop_diverges:
  assumes t: "t = None \<or> t = Some 0"
    and dev: "\<forall>k. no_finger_reply (source E) (rpos w + 12 * k)"
    and kill: "\<not> kill_read_finger w"
  shows "read_loop E t s w = None"
proof (rule ccontr)
  assume "read_loop E t s w \<noteq> None"
  then obtain y where y: "read_loop E t s w = Some y" by auto
  have "\<not> ((t = None \<or> t = Some 0) \<and> (\<forall>k. no_finger_reply (source E) (rpos w + 12 * k))
            \<and> \<not> kill_read_finger w)"
  proof (rule read_loop.raw_induct
      [where P = "\<lambda>E t s w y. \<not> ((t = None \<or> t = Some 0)
                    \<and> (\<forall>k. no_finger_reply (source E) (rpos w + 12 * k))
                    \<and> \<not> kill_read_finger w)",
       OF _ y])
    fix loop E t s w y
    assume IH: "\<And>E t s w y. loop E t s w = Some y \<Longrightarrow>
        \<not> ((t = None \<or> t = Some 0) \<and> (\<forall>k. no_finger_reply (source E) (rpos w + 12 * k))
            \<and> \<not> kill_read_finger w)"
      and body: "(case read_poll E t s w of Again w' \<Rightarrow> loop E t s w'
                  | Exit r w' \<Rightarrow> Some (r, w')) = Some y"
    show "\<not> ((t = None \<or> t = Some 0) \<and> (\<forall>k. no_finger_reply (source E) (rpos w + 12 * k))
            \<and> \<not> kill_read_finger w)"
    proof
      assume a: "(t = None \<or> t = Some 0) \<and> (\<forall>k. no_finger_reply (source E) (rpos w + 12 * k))
            \<and> \<not> kill_read_finger w"
      then have "no_finger_reply (source E) (rpos w + 12 * 0)" by blast
      then have nf: "no_finger_reply (source E) (rpos w)" by simp
      let ?w = "snd (scan E w)"
      have p: "read_poll E t s w = Again ?w"
        using poll_untimed [of E w t s] scan_no_finger [OF nf] a by simp
      with body have "loop E t s ?w = Some y" by simp
      from IH [OF this] have
        "\<not> ((\<forall>k. no_finger_reply (source E) (rpos ?w + 12 * k)) \<and> \<not> kill_read_finger ?w)"
        using a by simp
      moreover have "\<not> kill_read_finger ?w"
        using scan_keeps [of E w] a by simp
      moreover have "no_finger_reply (source E) (rpos ?w + 12 * k)" for k
      proof -
        have e: "rpos ?w + 12 * k = rpos w + 12 * (Suc k)"
          using scan_no_finger [OF nf] by simp
        from a have "no_finger_reply (source E) (rpos w + 12 * (Suc k))" by blast
        then show ?thesis by (simp only: e)
      qed
      ultimately show False by blast
    qed
  qed
  then show False using assms by simp
qed

lemma read_loop_zero_le:
  assumes "read_loop E t s w = Some y" and "t = None \<or> t = Some 0"
    and "t' = None \<or> t' = Some 0"
  shows "read_loop E t' s w = Some y"
proof -
  have "(t = None \<or> t = Some 0) \<longrightarrow> (\<forall>t'. t' = None \<or> t' = Some 0 \<longrightarrow> read_loop E t' s w = Some y)"
  proof (rule read_loop.raw_induct
      [where P = "\<lambda>E t s w y. (t = None \<or> t = Some 0) \<longrightarrow>
                     (\<forall>t'. t' = None \<or> t' = Some 0 \<longrightarrow> read_loop E t' s w = Some y)",
       OF _ assms(1)])
    fix loop E t s w y
    assume IH: "\<And>E t s w y. loop E t s w = Some y \<Longrightarrow>
        (t = None \<or> t = Some 0) \<longrightarrow>
        (\<forall>t'. t' = None \<or> t' = Some 0 \<longrightarrow> read_loop E t' s w = Some y)"
      and body: "(case read_poll E t s w of Again w' \<Rightarrow> loop E t s w'
                  | Exit r w' \<Rightarrow> Some (r, w')) = Some y"
    show "(t = None \<or> t = Some 0) \<longrightarrow>
          (\<forall>t'. t' = None \<or> t' = Some 0 \<longrightarrow> read_loop E t' s w = Some y)"
    proof (intro impI allI)
      fix t' :: "int option"
      assume t: "t = None \<or> t = Some 0" and t': "t' = None \<or> t' = Some 0"
      have same: "read_poll E t' s w = read_poll E t s w"
        using t t' read_poll_zero [of E s w] by auto
      show "read_loop E t' s w = Some y"
      proof (cases "read_poll E t s w")
        case (Again w')
        with body have "loop E t s w' = Some y" by simp
        from IH [OF this] t t' have "read_loop E t' s w' = Some y" by blast
        then show ?thesis using read_loop_Again [of E t' s w w'] same Again by simp
      next
        case (Exit r w')
        with body have "y = (r, w')" by simp
        then show ?thesis using read_loop_Exit [of E t' s w r w'] same Exit by simp
      qed
    qed
  qed
  then show ?thesis using assms by blast
qed

lemma read_loop_zero: "read_loop E (Some 0) s w = read_loop E None s w"
proof (cases "read_loop E (Some 0) s w")
  case None
  show ?thesis
  proof (cases "read_loop E None s w")
    case n: None
    with None show ?thesis by simp
  next
    case (Some y)
    from read_loop_zero_le [OF Some, of "Some 0"] None show ?thesis by simp
  qed
next
  case (Some y)
  from read_loop_zero_le [OF Some, of None] Some show ?thesis by simp
qed

lemma read_loop_untimed_outcome:
  assumes "read_loop E t s w = Some y" and "t = None \<or> t = Some 0"
  shows "fst y \<noteq> Inl NoFingerFound"
proof -
  have "(t = None \<or> t = Some 0) \<longrightarrow> fst y \<noteq> Inl NoFingerFound"
  proof (rule read_loop.raw_induct
      [where P = "\<lambda>E t s w y. (t = None \<or> t = Some 0) \<longrightarrow> fst y \<noteq> Inl NoFingerFound",
       OF _ assms(1)])
    fix loop E t s w y
    assume IH: "\<And>E t s w y. loop E t s w = Some y \<Longrightarrow>
        (t = None \<or> t = Some 0) \<longrightarrow> fst y \<noteq> Inl NoFingerFound"
      and body: "(case read_poll E t s w of Again w' \<Rightarrow> loop E t s w'
                  | Exit r w' \<Rightarrow> Some (r, w')) = Some y"
    show "(t = None \<or> t = Some 0) \<longrightarrow> fst y \<noteq> Inl NoFingerFound"
    proof (cases "read_poll E t s w")
      case (Again w')
      with body have "loop E t s w' = Some y" by simp
      from IH [OF this] show ?thesis .
    next
      case (Exit r w')
      with body have "y = (r, w')" by simp
      then show ?thesis using read_poll_Exit_no_timeout [OF Exit] by auto
    qed
  qed
  then show ?thesis using assms by blast
qed

subsection \<open>Timeout and cancellation exits of the detection loop\<close>

lemma read_loop_times_out:
  assumes "T \<noteq> 0" and "\<not> kill_read_finger w"
    and "\<forall>k\<le>n. no_finger_reply (source E) (rpos w + 12 * k)"
    and "\<forall>k<n. clock E (ticks w + k) - s < T"
    and "clock E (ticks w + n) - s \<ge> T"
  shows "\<exists>r w'. read_loop E (Some T) s w = Some (r, w') \<and> status w' = FREE
           \<and> ticks w' = ticks w + n + 1 \<and> \<not> kill_read_finger w'
           \<and> sent w' = sent w @ replicate (Suc n) (COMMAND, [PayloadData_hex SCAN])
                          @ [(COMMAND, [PayloadData_hex COUNT_TEMPLATES])]
           \<and> (\<forall>c. count_reply (source E) (rpos w + 12 * (n + 1)) c \<longrightarrow> r = Inl NoFingerFound)"
  using assms
proof (induction n arbitrary: w)
  case 0
  then have nf: "no_finger_reply (source E) (rpos w)" by simp
  let ?v = "set_status FREE ((snd (scan E w))\<lparr>ticks := ticks w + 1\<rparr>)"
  obtain rc w' where c: "count_fingers E ?v = (rc, w')" by fastforce
  have k: "ticks w' = ticks w + 1 \<and> status w' = FREE \<and> \<not> kill_read_finger w'
      \<and> sent w' = sent w @ [(COMMAND, [PayloadData_hex SCAN]),
                             (COMMAND, [PayloadData_hex COUNT_TEMPLATES])]"
    using count_fingers_keeps [of E ?v] c scan_keeps [of E w] "0.prems"(2) by simp
  have p: "read_poll E (Some T) s w =
      (case rc of Inl e \<Rightarrow> Exit (Inl e) w' | Inr _ \<Rightarrow> Exit (Inl NoFingerFound) w')"
    using poll_late [of E w T s] scan_no_finger [OF nf] "0.prems" c by simp
  have r: "count_reply (source E) (rpos w + 12) x \<Longrightarrow> rc = Inr x" for x
    using count_fingers_reply [of E ?v x] scan_no_finger [OF nf] c by simp
  show ?case
  proof (cases rc)
    case (Inl e)
    with p have "read_loop E (Some T) s w = Some (Inl e, w')"
      using read_loop_Exit [of E "Some T" s w "Inl e" w'] by simp
    then show ?thesis using k r Inl by auto
  next
    case (Inr x)
    with p have "read_loop E (Some T) s w = Some (Inl NoFingerFound, w')"
      using read_loop_Exit [of E "Some T" s w "Inl NoFingerFound" w'] by simp
    then show ?thesis using k by auto
  qed
next
  case (Suc n)
  from Suc.prems(3) have "no_finger_reply (source E) (rpos w + 12 * 0)" by blast
  then have nf: "no_finger_reply (source E) (rpos w)" by simp
  let ?w = "(snd (scan E w))\<lparr>ticks := ticks w + 1\<rparr>"
  from Suc.prems(4) have "clock E (ticks w + 0) - s < T" by blast
  then have p: "read_poll E (Some T) s w = Again ?w"
    using poll_early [of E w T s] scan_no_finger [OF nf] Suc.prems(1,2) by simp
  have f: "rpos ?w = rpos w + 12" "ticks ?w = ticks w + 1" "\<not> kill_read_finger ?w"
    "sent ?w = sent w @ [(COMMAND, [PayloadData_hex SCAN])]"
    using scan_no_finger [OF nf] scan_keeps [of E w] Suc.prems(2) by simp_all
  have d: "\<forall>k\<le>n. no_finger_reply (source E) (rpos ?w + 12 * k)"
  proof (intro allI impI)
    fix k assume "k \<le> n"
    then have "Suc k \<le> Suc n" by simp
    with Suc.prems(3) have "no_finger_reply (source E) (rpos w + 12 * Suc k)" by blast
    then show "no_finger_reply (source E) (rpos ?w + 12 * k)"
      using scan_no_finger [OF nf] by (simp add: algebra_simps)
  qed
  have e: "\<forall>k<n. clock E (ticks ?w + k) - s < T"
  proof (intro allI impI)
    fix k assume "k < n"
    then have "Suc k < Suc n" by simp
    with Suc.prems(4) have "clock E (ticks w + Suc k) - s < T" by blast
    then show "clock E (ticks ?w + k) - s < T" by (simp add: algebra_simps)
  qed
  have l: "clock E (ticks ?w + n) - s \<ge> T"
    using Suc.prems(5) by (simp add: algebra_simps)
  from Suc.IH [OF Suc.prems(1) f(3) d e l]
  obtain r w' where "read_loop E (Some T) s ?w = Some (r, w')" "status w' = FREE"
    "ticks w' = ticks ?w + n + 1" "\<not> kill_read_finger w'"
    "sent w' = sent ?w @ replicate (Suc n) (COMMAND, [PayloadData_hex SCAN])
                 @ [(COMMAND, [PayloadData_hex COUNT_TEMPLATES])]"
    "\<forall>c. count_reply (source E) (rpos ?w + 12 * (n + 1)) c \<longrightarrow> r = Inl NoFingerFound"
    by blast
  then show ?case
    using read_loop_Again [OF p] scan_no_finger [OF nf] scan_keeps [of E w]
    by (simp add: algebra_simps)
qed

lemma read_loop_kill:
  assumes "fst (scan E w) = Inl NoFingerFound" and "kill_read_finger w"
  shows "\<exists>r w'. read_loop E t s w = Some (r, w') \<and> \<not> kill_read_finger w' \<and> status w' = FREE
           \<and> ticks w' = ticks w \<and> r \<noteq> Inl NoFingerFound
           \<and> (\<forall>c. count_reply (source E) (rpos (snd (scan E w))) c \<longrightarrow> r = Inl KillSignal)"
proof -
  let ?v = "set_status FREE ((snd (scan E w))\<lparr>kill_read_finger := False\<rparr>)"
  obtain rc w' where c: "count_fingers E ?v = (rc, w')" by fastforce
  have k: "ticks w' = ticks w \<and> status w' = FREE \<and> \<not> kill_read_finger w'"
    using count_fingers_keeps [of E ?v] c scan_keeps [of E w] by simp
  have p: "read_poll E t s w =
      (case rc of Inl e \<Rightarrow> Exit (Inl e) w' | Inr _ \<Rightarrow> Exit (Inl KillSignal) w')"
    using poll_kill [OF assms, of t s] c by simp
  have r: "count_reply (source E) (rpos (snd (scan E w))) x \<Longrightarrow> rc = Inr x" for x
    using count_fingers_reply [of E ?v x] c by simp
  have n: "rc \<noteq> Inl NoFingerFound"
    using count_fingers_err [of E ?v NoFingerFound] c by auto
  show ?thesis
  proof (cases rc)
    case (Inl e)
    with p have "read_loop E t s w = Some (Inl e, w')"
      using read_loop_Exit [of E t s w "Inl e" w'] by simp
    then show ?thesis using k r n Inl by auto
  next
    case (Inr x)
    with p have "read_loop E t s w = Some (Inl KillSignal, w')"
      using read_loop_Exit [of E t s w "Inl KillSignal" w'] by simp
    then show ?thesis using k by auto
  qed
qed

lemma read_loop_sent:
  assumes "read_loop E t s w = Some y"
  shows "\<exists>k. sent (snd y) = sent w @ replicate (Suc k) (COMMAND, [PayloadData_hex SCAN])
                @ (if fst y = Inr () \<or> fst y = Inl ReadInputError then []
                   else [(COMMAND, [PayloadData_hex COUNT_TEMPLATES])])"
proof (rule read_loop.raw_induct
    [where P = "\<lambda>E t s w y. \<exists>k. sent (snd y)
                  = sent w @ replicate (Suc k) (COMMAND, [PayloadData_hex SCAN])
                    @ (if fst y = Inr () \<or> fst y = Inl ReadInputError then []
                       else [(COMMAND, [PayloadData_hex COUNT_TEMPLATES])])",
     OF _ assms])
  fix loop E t s w y
  assume IH: "\<And>E t s w y. loop E t s w = Some y \<Longrightarrow>
      \<exists>k. sent (snd y) = sent w @ replicate (Suc k) (COMMAND, [PayloadData_hex SCAN])
             @ (if fst y = Inr () \<or> fst y = Inl ReadInputError then []
                else [(COMMAND, [PayloadData_hex COUNT_TEMPLATES])])"
    and body: "(case read_poll E t s w of Again w' \<Rightarrow> loop E t s w'
                | Exit r w' \<Rightarrow> Some (r, w')) = Some y"
  let ?tail = "if fst y = Inr () \<or> fst y = Inl ReadInputError then []
               else [(COMMAND, [PayloadData_hex COUNT_TEMPLATES])]"
  show "\<exists>k. sent (snd y) = sent w @ replicate (Suc k) (COMMAND, [PayloadData_hex SCAN]) @ ?tail"
  proof (cases "read_poll E t s w")
    case (Again w')
    with body have "loop E t s w' = Some y" by simp
    from IH [OF this] obtain k where
      "sent (snd y) = sent w' @ replicate (Suc k) (COMMAND, [PayloadData_hex SCAN]) @ ?tail"
      by blast
    then have "sent (snd y)
        = sent w @ replicate (Suc (Suc k)) (COMMAND, [PayloadData_hex SCAN]) @ ?tail"
      using read_poll_Again [OF Again] by simp
    then show ?thesis by blast
  next
    case (Exit r w')
    with body have y: "y = (r, w')" by simp
    have "sent (snd y) = sent w @ replicate (Suc 0) (COMMAND, [PayloadData_hex SCAN]) @ ?tail"
      using read_poll_Exit [OF Exit] y by auto
    then show ?thesis by blast
  qed
qed

subsection \<open>Concrete transports and evaluation\<close>

lemmas run_defs =
  read_def read_loop.simps read_poll_def scan_def count_fingers_def exchange_def send_data_def
  read_data_def read_data_loop.simps get_current_timestamp_def set_status_def Let_def
  pack_bytes_def serial_write_def shift_right_def shift_left_def shift_left_or_def
  payload_shift_left_or_def unpack_bytes_def check_packet_header_def differs_def
  checksum_start_def complete_packet_def fresh_def fake_source_def repeating_source_def
  scripted_source_def

lemma no_finger_frame:
  "encode 0xFFFFFFFF ACK [0x02]
     = [0xEF, 0x01, 0xFF, 0xFF, 0xFF, 0xFF, 0x07, 0x00, 0x03, 0x02, 0x00, 0x0C]"
  by code_simp

lemma count_ten_frame:
  "encode 0xFFFFFFFF ACK [0x00, 0x00, 0x0A]
     = [0xEF, 0x01, 0xFF, 0xFF, 0xFF, 0xFF, 0x07, 0x00, 0x05, 0x00, 0x00, 0x0A, 0x00, 0x16]"
  by code_simp

lemma no_finger_device_replies: "no_finger_reply no_finger_device (12 * k)"
  by (simp add: no_finger_reply_def no_finger_device_def repeating_source_def no_finger_frame)

lemma read_unfold:
  "read E timeout w =
     (case read_loop E timeout (clock E (ticks w))
             ((set_status BUSY w)\<lparr>ticks := ticks w + 1\<rparr>) of
        None \<Rightarrow> None
      | Some (Inl e, w2) \<Rightarrow> Some (Inl e, w2)
      | Some (Inr _, w2) \<Rightarrow> Some (Inr (), set_status FREE w2))"
  by (simp add: read_def get_current_timestamp_def
      split: option.splits prod.splits sum.splits)

subsection \<open>Outcomes and requests of the workflows\<close>

lemma read_status:
  assumes "read E timeout w = Some (r, w')"
  shows "status w' = FREE"
proof -
  let ?w = "(set_status BUSY w)\<lparr>ticks := ticks w + 1\<rparr>"
  obtain y where y: "read_loop E timeout (clock E (ticks w)) ?w = Some y"
    using assms by (auto simp: read_unfold split: option.splits)
  show ?thesis
    using read_loop_exit_status [OF y] assms y
    by (cases y) (auto simp: read_unfold set_status_def split: sum.splits)
qed

lemma read_sent:
  assumes "read E timeout w = Some (r, w')"
  shows "\<exists>k. sent w' = sent w @ replicate (Suc k) (COMMAND, [PayloadData_hex SCAN])
              @ (if r = Inr () \<or> r = Inl ReadInputError then []
                 else [(COMMAND, [PayloadData_hex COUNT_TEMPLATES])])"
proof -
  let ?w = "(set_status BUSY w)\<lparr>ticks := ticks w + 1\<rparr>"
  obtain y where y: "read_loop E timeout (clock E (ticks w)) ?w = Some y"
    using assms by (auto simp: read_unfold split: option.splits)
  show ?thesis
    using read_loop_sent [OF y] assms y
    by (cases y) (auto simp: read_unfold set_status_def split: sum.splits)
qed




lemma check_finger_found:
  assumes "check_finger E timeout w = Some (Inr found, w')"
  shows "\<exists>k. sent w' = sent w @ replicate (Suc k) (COMMAND, [PayloadData_hex SCAN])
              @ [(COMMAND, [PayloadData_hex BUFFER_IMAGE, CharBuffer_hex READ]),
                 (COMMAND, [PayloadData_hex SEARCH_TEMPLATE, CharBuffer_hex READ,
                            shift_right 0x0000 8, shift_right 0x0000 0,
                            shift_right 0x00A3 8, shift_right 0x00A3 0])]"
proof -
  obtain r1 w1 where 1: "read E timeout w = Some (r1, w1)"
    using assms by (auto simp: check_finger_def split: option.splits)
  have r1: "r1 = Inr ()"
    using assms 1 by (cases r1) (auto simp: check_finger_def)
  obtain r2 w2 where 2: "buffer_image E READ w1 = (r2, w2)" by fastforce
  obtain r3 w3 where 3: "search_template E READ w2 = (r3, w3)" by fastforce
  have w': "w' = w3"
    using assms 1 2 3 r1 by (auto simp: check_finger_def split: sum.splits)
  obtain k where k: "sent w1 = sent w @ replicate (Suc k) (COMMAND, [PayloadData_hex SCAN])"
    using read_sent [OF 1] r1 by auto
  have s2: "sent w2 = sent w1 @ [(COMMAND, [PayloadData_hex BUFFER_IMAGE, CharBuffer_hex READ])]"
    using exchange_keeps [of E _ w1] snd_buffer_image [of E READ w1] 2 by simp
  have s3: "sent w3 = sent w2 @ [(COMMAND, [PayloadData_hex SEARCH_TEMPLATE, CharBuffer_hex READ,
                            shift_right 0x0000 8, shift_right 0x0000 0,
                            shift_right 0x00A3 8, shift_right 0x00A3 0])]"
    using exchange_keeps [of E _ w2] snd_search_template [of E READ w2] 3 by simp
  show ?thesis
    using k s2 s3 w' by (intro exI [of _ k]) simp
qed



subsection \<open>The history of mode changes and requests\<close>

lemma write_packed_events: "events (snd (write_packed xs w)) = events w"
  by (induction xs arbitrary: w) (auto simp: serial_write_def split: sum.splits)

lemma send_payload_events: "events (snd (send_payload xs c w)) = events w"
  by (induction xs arbitrary: c w) (auto simp: serial_write_def split: sum.splits)

lemma send_data_events: "events (snd (send_data E dt p w)) = events w @ [Sent dt p]"
proof -
  let ?w = "w\<lparr>sent := sent w @ [(dt, p)], events := events w @ [Sent dt p]\<rparr>"
  let ?hdr = "[shift_right (PayloadData_hex START_BIT) 8,
                 shift_right (PayloadData_hex START_BIT) 0,
                 shift_right (address E) 24,
                 shift_right (address E) 16,
                 shift_right (address E) 8,
                 shift_right (address E) 0,
                 DataType_hex dt,
                 shift_right (int (length p) + 2) 8,
                 shift_right (int (length p) + 2) 0]"
  obtain r1 w1 where 1: "write_packed ?hdr ?w = (r1, w1)" by fastforce
  obtain r2 w2 where 2: "send_payload p (DataType_hex dt + shift_right (int (length p) + 2) 8
                        + shift_right (int (length p) + 2) 0) w1 = (r2, w2)" by fastforce
  have k1: "events w1 = events w @ [Sent dt p]"
    using write_packed_events [of ?hdr ?w] 1 by simp
  have k2: "events w2 = events w1"
    using send_payload_events [of p "DataType_hex dt + shift_right (int (length p) + 2) 8
                        + shift_right (int (length p) + 2) 0" w1] 2 by simp
  show ?thesis
  proof (cases r1)
    case (Inl e)
    then show ?thesis
      using 1 k1 by (simp add: send_data_def Let_def del: write_packed.simps)
  next
    case r1: (Inr u)
    show ?thesis
    proof (cases r2)
      case (Inl e)
      then show ?thesis
        using 1 2 r1 k1 k2 by (simp add: send_data_def Let_def del: write_packed.simps)
    next
      case (Inr c)
      then show ?thesis
        using 1 2 r1 k1 k2 write_packed_events [of "[shift_right c 8, shift_right c 0]" w2]
        by (simp add: send_data_def Let_def del: write_packed.simps)
    qed
  qed
qed

lemma read_data_events: "events (snd (read_data E w)) = events w"
  by (simp add: read_data_def split: prod.splits)

lemma exchange_events: "events (snd (exchange E p w)) = events w @ [Sent COMMAND p]"
proof -
  obtain r1 w1 where 1: "send_data E COMMAND p w = (r1, w1)" by fastforce
  show ?thesis
    using 1 send_data_events [of E COMMAND p w] read_data_events [of E w1]
    by (cases r1) (simp_all add: exchange_def)
qed

lemma scan_events:
  "events (snd (scan E w)) = events w @ [Sent COMMAND [PayloadData_hex SCAN]]"
  unfolding snd_scan by (rule exchange_events)

lemma count_fingers_events:
  "events (snd (count_fingers E w)) = events w @ [Sent COMMAND [PayloadData_hex COUNT_TEMPLATES]]"
  unfolding snd_count_fingers by (rule exchange_events)

lemma read_poll_Again_events:
  assumes "read_poll E t s w = Again w'"
  shows "events w' = events w @ [Sent COMMAND [PayloadData_hex SCAN]]"
proof -
  obtain r1 w1 where 1: "scan E w = (r1, w1)" by fastforce
  have k: "events w1 = events w @ [Sent COMMAND [PayloadData_hex SCAN]]"
    using scan_events [of E w] 1 by simp
  show ?thesis
    using assms 1 k
    by (auto simp: read_poll_def get_current_timestamp_def
        split: sum.splits prod.splits if_splits option.splits)
qed

lemma read_poll_Exit_events:
  assumes "read_poll E t s w = Exit r w'"
  shows "events w' = events w @ Sent COMMAND [PayloadData_hex SCAN]
           # (if r = Inr () then []
              else if r = Inl ReadInputError then [Mode FREE]
              else [Mode FREE, Sent COMMAND [PayloadData_hex COUNT_TEMPLATES]])"
proof -
  obtain r1 w1 where 1: "scan E w = (r1, w1)" by fastforce
  have k: "events w1 = events w @ [Sent COMMAND [PayloadData_hex SCAN]]"
    using scan_events [of E w] 1 by simp
  have c: "count_fingers E v = (rc, v') \<Longrightarrow>
      events v' = events v @ [Sent COMMAND [PayloadData_hex COUNT_TEMPLATES]]
      \<and> rc \<noteq> Inl ReadInputError" for v rc v'
    using count_fingers_events [of E v] count_fingers_err [of E v ReadInputError] by auto
  show ?thesis
    using assms 1 k
    by (auto simp: read_poll_def get_current_timestamp_def
        split: sum.splits prod.splits if_splits option.splits dest!: c)
qed

lemma read_loop_events:
  assumes "read_loop E t s w = Some y"
  shows "\<exists>k. events (snd y) = events w @ replicate (Suc k) (Sent COMMAND [PayloadData_hex SCAN])
                @ (if fst y = Inr () then []
                   else if fst y = Inl ReadInputError then [Mode FREE]
                   else [Mode FREE, Sent COMMAND [PayloadData_hex COUNT_TEMPLATES]])"
proof (rule read_loop.raw_induct
    [where P = "\<lambda>E t s w y. \<exists>k. events (snd y)
                  = events w @ replicate (Suc k) (Sent COMMAND [PayloadData_hex SCAN])
                    @ (if fst y = Inr () then []
                       else if fst y = Inl ReadInputError then [Mode FREE]
                       else [Mode FREE, Sent COMMAND [PayloadData_hex COUNT_TEMPLATES]])",
     OF _ assms])
  fix loop E t s w y
  assume IH: "\<And>E t s w y. loop E t s w = Some y \<Longrightarrow>
      \<exists>k. events (snd y) = events w @ replicate (Suc k) (Sent COMMAND [PayloadData_hex SCAN])
             @ (if fst y = Inr () then []
                else if fst y = Inl ReadInputError then [Mode FREE]
                else [Mode FREE, Sent COMMAND [PayloadData_hex COUNT_TEMPLATES]])"
    and body: "(case read_poll E t s w of Again w' \<Rightarrow> loop E t s w'
                | Exit r w' \<Rightarrow> Some (r, w')) = Some y"
  let ?tail = "if fst y = Inr () then []
               else if fst y = Inl ReadInputError then [Mode FREE]
               else [Mode FREE, Sent COMMAND [PayloadData_hex COUNT_TEMPLATES]]"
  show "\<exists>k. events (snd y)
          = events w @ replicate (Suc k) (Sent COMMAND [PayloadData_hex SCAN]) @ ?tail"
  proof (cases "read_poll E t s w")
    case (Again w')
    with body have "loop E t s w' = Some y" by simp
    from IH [OF this] obtain k where
      "events (snd y)
         = events w' @ replicate (Suc k) (Sent COMMAND [PayloadData_hex SCAN]) @ ?tail"
      by blast
    then have "events (snd y)
        = events w @ replicate (Suc (Suc k)) (Sent COMMAND [PayloadData_hex SCAN]) @ ?tail"
      using read_poll_Again_events [OF Again] by simp
    then show ?thesis by blast
  next
    case (Exit r w')
    with body have y: "y = (r, w')" by simp
    have "events (snd y)
        = events w @ replicate (Suc 0) (Sent COMMAND [PayloadData_hex SCAN]) @ ?tail"
      using read_poll_Exit_events [OF Exit] y by simp
    then show ?thesis by blast
  qed
qed

lemma read_events:
  assumes "read E timeout w = Some (r, w')"
  shows "\<exists>k. events w' = events w @ [Mode BUSY]
              @ replicate (Suc k) (Sent COMMAND [PayloadData_hex SCAN])
              @ (if r = Inr () \<or> r = Inl ReadInputError then [Mode FREE]
                 else [Mode FREE, Sent COMMAND [PayloadData_hex COUNT_TEMPLATES]])"
proof -
  let ?w = "(set_status BUSY w)\<lparr>ticks := ticks w + 1\<rparr>"
  obtain y where y: "read_loop E timeout (clock E (ticks w)) ?w = Some y"
    using assms by (auto simp: read_unfold split: option.splits)
  from read_loop_events [OF y] obtain k where
    k: "events (snd y) = events ?w @ replicate (Suc k) (Sent COMMAND [PayloadData_hex SCAN])
                @ (if fst y = Inr () then []
                   else if fst y = Inl ReadInputError then [Mode FREE]
                   else [Mode FREE, Sent COMMAND [PayloadData_hex COUNT_TEMPLATES]])"
    by blast
  have "events w' = events w @ [Mode BUSY]
              @ replicate (Suc k) (Sent COMMAND [PayloadData_hex SCAN])
              @ (if r = Inr () \<or> r = Inl ReadInputError then [Mode FREE]
                 else [Mode FREE, Sent COMMAND [PayloadData_hex COUNT_TEMPLATES]])"
    using k assms y
    by (cases y) (auto simp: read_unfold split: sum.splits if_splits)
  then show ?thesis by blast
qed

subsection \<open>The storage phase of enrollment\<close>





subsection \<open>Decoding an encoded frame\<close>

lemma unpack_word_of_int:
  "0 \<le> x \<Longrightarrow> x \<le> 255 \<Longrightarrow> unpack_bytes (word_of_int x) = x"
  by (simp add: unpack_bytes_def uint_word_of_int take_bit_eq_mod)

lemma shift_right_0: "shift_right x 0 = x mod 256"
proof -
  have "x AND 255 = take_bit 8 x"
    by (simp add: take_bit_eq_mask mask_eq_exp_minus_1)
  then show ?thesis by (simp add: shift_right_def take_bit_eq_mod)
qed

lemma shift_right_8: "shift_right x 8 = x div 256 mod 256"
proof -
  have "drop_bit 8 x AND 255 = take_bit 8 (drop_bit 8 x)"
    by (simp add: take_bit_eq_mask mask_eq_exp_minus_1)
  then show ?thesis by (simp add: shift_right_def take_bit_eq_mod drop_bit_eq_div)
qed

lemma shift_left_or_rebuilds:
  assumes "rebuilt_by_or v"
  shows "shift_left_or (Some (word_of_int (shift_right v 8)))
                       (Some (word_of_int (shift_right v 0))) = Inr v"
proof -
  have r8: "0 \<le> shift_right v 8 \<and> shift_right v 8 \<le> 255"
    and r0: "0 \<le> shift_right v 0 \<and> shift_right v 0 \<le> 255"
    using shift_right_range by simp_all
  have u8: "unpack_bytes (word_of_int (shift_right v 8)) = v div 256 mod 256"
    using unpack_word_of_int r8 by (simp add: shift_right_8)
  have u0: "unpack_bytes (word_of_int (shift_right v 0)) = v mod 256"
    using unpack_word_of_int r0 by (simp add: shift_right_0)
  have b: "0 \<le> v" "v < 65536" "v < 256 \<or> v mod 256 = 0"
    using assms by (simp_all add: rebuilt_by_or_def)
  have d: "v div 256 mod 256 = v div 256"
    using b by simp
  show ?thesis
  proof (cases "v < 256")
    case True
    then show ?thesis
      using b by (simp add: shift_left_or_def shift_left_def u8 u0 d)
  next
    case False
    then have "v mod 256 = 0" "v div 256 \<noteq> 0" using b by auto
    then have "v div 256 * 256 = v"
      using div_mult_mod_eq [of v 256] by simp
    then show ?thesis
      using \<open>v div 256 \<noteq> 0\<close>
      by (simp add: shift_left_or_def shift_left_def u8 u0 d push_bit_eq_mult)
  qed
qed

lemma collect_payload_bytes:
  "\<forall>b\<in>set ps. 0 \<le> b \<and> b \<le> 255 \<Longrightarrow>
     collect_payload (map (\<lambda>b. Some (word_of_int b)) ps) c acc
       = Inr (c + sum_list ps, acc @ ps)"
  by (induction ps arbitrary: c acc) (simp_all add: unpack_word_of_int)

lemma read_data_loop_frame:
  fixes frame :: "byte list"
  assumes N: "12 \<le> length frame"
    and m0: "frame ! 0 = 0xEF" and m1: "frame ! 1 = 0x01"
    and L: "shift_left_or (Some (frame ! 7)) (Some (frame ! 8)) = Inr L"
    and NL: "int (length frame) = L + 9"
    and k: "k < length frame"
  shows "read_data_loop (fake_source frame) k (map Some (take k frame))
           = (complete_packet (map Some frame) L, length frame)"
  using k
proof (induction "length frame - Suc k" arbitrary: k)
  case 0
  then have e: "Suc k = length frame" by simp
  have "take (Suc k) frame = take k frame @ [frame ! k]"
    using "0.prems" by (simp add: take_Suc_conv_app_nth)
  moreover have "take (Suc k) frame = frame" using e by simp
  ultimately have "map Some (take k frame) @ [Some (frame ! k)] = map Some frame"
    by (metis list.simps(8,9) map_append)
  then have rd: "map Some (take k frame) @ [fake_source frame k] = map Some frame"
    using "0.prems" by (simp add: fake_source_def)
  have nth: "map Some frame ! i = Some (frame ! i)" if "i < 12" for i
    using N that by simp
  have h: "check_packet_header (map Some frame) = Inr ()"
    using m0 m1 by (simp add: check_packet_header_def differs_def unpack_bytes_def shift_right_def nth)
  have l: "shift_left_or (map Some frame ! 7) (map Some frame ! 8) = Inr L"
    using L by (simp add: nth)
  have len: "12 \<le> length (map Some frame)" using N by simp
  have nlt: "\<not> int (length (map Some frame)) < L + 9" using NL by simp
  have "read_data_loop (fake_source frame) k (map Some (take k frame))
          = (complete_packet (map Some frame) L, k + 1)"
    by (subst read_data_loop.simps, simp only: rd)
       (simp only: h l sum.case len nlt if_True if_False)
  then show ?case using e by simp
next
  case (Suc n)
  then have lt: "Suc k < length frame" by simp
  let ?rd = "map Some (take (Suc k) frame)"
  have rd: "map Some (take k frame) @ [fake_source frame k] = ?rd"
    using Suc.prems by (simp add: fake_source_def take_Suc_conv_app_nth)
  have IH: "read_data_loop (fake_source frame) (k + 1) ?rd
              = (complete_packet (map Some frame) L, length frame)"
    using Suc.hyps(1) [of "Suc k"] Suc.hyps(2) lt by simp
  have len: "length ?rd = Suc k" using lt by simp
  show ?case
  proof (cases "12 \<le> Suc k")
    case False
    have "\<not> 12 \<le> length ?rd" using False len by simp
    then have "read_data_loop (fake_source frame) k (map Some (take k frame))
            = read_data_loop (fake_source frame) (k + 1) ?rd"
      by (subst read_data_loop.simps, simp only: rd) (simp only: if_False)
    then show ?thesis using IH by simp
  next
    case True
    have nth: "?rd ! i = Some (frame ! i)" if "i < 12" for i
      using True lt that by simp
    have h: "check_packet_header ?rd = Inr ()"
      using m0 m1
      by (simp add: check_packet_header_def differs_def unpack_bytes_def shift_right_def nth)
    have l: "shift_left_or (?rd ! 7) (?rd ! 8) = Inr L"
      using L by (simp add: nth)
    have t: "12 \<le> length ?rd" using True len by simp
    have c: "int (length ?rd) < L + 9" using lt NL len by simp
    have "read_data_loop (fake_source frame) k (map Some (take k frame))
            = read_data_loop (fake_source frame) (k + 1) ?rd"
      by (subst read_data_loop.simps, simp only: rd)
         (simp only: h l sum.case t c if_True)
    then show ?thesis using IH by simp
  qed
qed

lemma encode_layout:
  assumes "\<forall>b\<in>set payload. 0 \<le> b \<and> b \<le> 255"
  shows "encode addr data_type payload = map word_of_int (frame_layout addr data_type payload)"
  by (simp add: encode_def send_data_ok [OF assms] fresh_def)

lemma complete_packet_frame:
  assumes bytes: "\<forall>b\<in>set payload. 0 \<le> b \<and> b \<le> 255"
    and S: "rebuilt_by_or (packet_checksum data_type payload)"
  shows "complete_packet (map Some (map word_of_int (frame_layout addr data_type payload)))
           (int (length payload) + 2) = Inr (DataType_hex data_type, payload)"
proof -
  let ?L = "int (length payload) + 2"
  let ?S = "packet_checksum data_type payload"
  let ?hdr = "[shift_right (PayloadData_hex START_BIT) 8,
               shift_right (PayloadData_hex START_BIT) 0,
               shift_right addr 24, shift_right addr 16, shift_right addr 8,
               shift_right addr 0, DataType_hex data_type,
               shift_right ?L 8, shift_right ?L 0]"
  let ?h = "map (\<lambda>b. Some (word_of_int b :: byte)) ?hdr"
  let ?p = "map (\<lambda>b. Some (word_of_int b :: byte)) payload"
  let ?c = "[Some (word_of_int (shift_right ?S 8) :: byte), Some (word_of_int (shift_right ?S 0))]"
  let ?rd = "map Some (map word_of_int (frame_layout addr data_type payload)) :: fragment list"
  have rd: "?rd = ?h @ ?p @ ?c"
    by (simp add: frame_layout_def)
  have lh: "length ?h = 9" by simp
  have n6: "?rd ! 6 = Some (word_of_int (DataType_hex data_type))"
    and n7: "?rd ! 7 = Some (word_of_int (shift_right ?L 8))"
    and n8: "?rd ! 8 = Some (word_of_int (shift_right ?L 0))"
    by (simp_all add: frame_layout_def)
  have len: "length ?rd = length payload + 11"
    by (simp add: frame_layout_def)
  have idx: "(xs @ ys @ zs) ! (length xs + (length ys + i)) = zs ! i"
    for xs ys zs :: "fragment list" and i
    by (simp add: nth_append)
  have i0: "length ?h + (length ?p + 0) = length payload + 9"
    and i1: "length ?h + (length ?p + 1) = length payload + 10"
    by simp_all
  have "?rd ! (length ?h + (length ?p + 0)) = ?c ! 0"
    unfolding rd by (rule idx)
  then have c0: "?rd ! (length payload + 9) = Some (word_of_int (shift_right ?S 8))"
    by (simp only: i0 nth_Cons_0)
  have "?rd ! (length ?h + (length ?p + 1)) = ?c ! 1"
    unfolding rd by (rule idx)
  then have c1: "?rd ! (length payload + 10) = Some (word_of_int (shift_right ?S 0))"
    by (simp only: i1) simp
  have dr: "take (nat (?L - 2)) (drop 9 ?rd) = ?p"
    unfolding rd by simp
  have u: "unpack_bytes (word_of_int (shift_right x y)) = shift_right x y" for x y
    using shift_right_range [of x y] by (simp add: unpack_word_of_int)
  have ud: "unpack_bytes (word_of_int (DataType_hex data_type)) = DataType_hex data_type"
    using DataType_hex_range [of data_type] by (simp add: unpack_word_of_int)
  have start: "checksum_start (?rd ! 6) (?rd ! 7) (?rd ! 8)
      = Inr (DataType_hex data_type + shift_right ?L 8 + shift_right ?L 0)"
    by (simp only: n6 n7 n8) (simp add: checksum_start_def u ud)
  have coll: "collect_payload ?p
      (DataType_hex data_type + shift_right ?L 8 + shift_right ?L 0) [] = Inr (?S, payload)"
    using collect_payload_bytes [OF bytes] by (simp add: packet_checksum_def)
  have e2: "length ?rd - 2 = length payload + 9" and e1: "length ?rd - 1 = length payload + 10"
    using len by simp_all
  have chk: "shift_left_or (?rd ! (length ?rd - 2)) (?rd ! (length ?rd - 1)) = Inr ?S"
    using shift_left_or_rebuilds [OF S] by (simp only: e2 e1 c0 c1)
  show ?thesis
    unfolding complete_packet_def Let_def
    by (simp only: start sum.case, simp only: dr coll sum.case prod.case,
        simp only: chk sum.case n6, simp add: ud)
qed

section \<open>The claims\<close>

subsection \<open>C1: the codec round trip\<close>

text \<open>
  C1 says that the decoder returns \<open>(type, payload)\<close> for the frame the encoder writes,
  for every type, every payload of bytes and every address. Two frames show otherwise.
  The frame of the empty payload has 11 bytes and the decoder looks at nothing before
  its twelfth read: that read finds the line empty, the decoder takes elements 10 and 11
  of what it read as the checksum, and it raises \<^verbatim>\<open>CorruptedPacket\<close>. The frame of the
  payload \<open>[251, 2]\<close> carries the checksum \<open>0x0102\<close>, which the decoder rebuilds as
  \<open>0x0100\<close> (the \<^verbatim>\<open>or\<close> of C2 and C3), and it raises \<^verbatim>\<open>CorruptedPacket\<close> too.
\<close>

theorem round_trip_counterexample:
  "decode_stream (fake_source (encode 0xFFFFFFFF COMMAND [])) = Inl CorruptedPacket
   \<and> decode_stream (fake_source (encode 0xFFFFFFFF COMMAND [251, 2])) = Inl CorruptedPacket"
  by code_simp

text \<open>
  C1 as amended. For every packet type, every address and every non-empty payload of
  bytes (each in \<open>0..255\<close>) whose length field (the payload length plus 2) and whose
  checksum each fit 16 bits and have a zero high byte or a zero low byte, the decoder,
  fed the bytes the encoder writes, returns the type and the payload unchanged.
\<close>

theorem round_trip:
  assumes "payload \<noteq> []" and "\<forall>b\<in>set payload. 0 \<le> b \<and> b \<le> 255"
    and "rebuilt_by_or (int (length payload) + 2)"
    and "rebuilt_by_or (packet_checksum data_type payload)"
  shows "decode_stream (fake_source (encode addr data_type payload))
           = Inr (DataType_hex data_type, payload)"
proof -
  let ?L = "int (length payload) + 2"
  let ?frame = "map word_of_int (frame_layout addr data_type payload) :: byte list"
  have N: "length ?frame = length payload + 11"
    by (simp add: frame_layout_def)
  have N12: "12 \<le> length ?frame"
    using assms(1) N by (cases payload) simp_all
  have m0: "?frame ! 0 = 0xEF" and m1: "?frame ! 1 = 0x01"
    by (simp_all add: frame_layout_def shift_right_8 shift_right_0)
  have f7: "?frame ! 7 = word_of_int (shift_right ?L 8)"
    and f8: "?frame ! 8 = word_of_int (shift_right ?L 0)"
    by (simp_all add: frame_layout_def)
  have L: "shift_left_or (Some (?frame ! 7)) (Some (?frame ! 8)) = Inr ?L"
    using shift_left_or_rebuilds [OF assms(3)] by (simp only: f7 f8)
  have NL: "int (length ?frame) = ?L + 9"
    using N by simp
  have k: "0 < length ?frame" using N by simp
  have "read_data_loop (fake_source ?frame) 0 (map Some (take 0 ?frame))
      = (complete_packet (map Some ?frame) ?L, length ?frame)"
    by (rule read_data_loop_frame [OF N12 m0 m1 L NL k])
  then have "decode_stream (fake_source ?frame) = complete_packet (map Some ?frame) ?L"
    by (simp add: decode_stream_def)
  then show ?thesis
    using complete_packet_frame [OF assms(2,4), of addr]
    by (simp add: encode_layout [OF assms(2)])
qed

theorem round_trip_witness:
  "decode_stream (fake_source (encode 0xFFFFFFFF COMMAND [PayloadData_hex SCAN]))
     = Inr (DataType_hex COMMAND, [PayloadData_hex SCAN])"
proof -
  have a: "[PayloadData_hex SCAN] \<noteq> []" by simp
  have b: "\<forall>b\<in>set [PayloadData_hex SCAN]. 0 \<le> b \<and> b \<le> 255" by simp
  have c: "rebuilt_by_or (int (length [PayloadData_hex SCAN]) + 2)"
    by (simp add: rebuilt_by_or_def)
  have d: "rebuilt_by_or (packet_checksum COMMAND [PayloadData_hex SCAN])"
    by (simp add: rebuilt_by_or_def packet_checksum_def shift_right_8 shift_right_0)
  show ?thesis by (rule round_trip [OF a b c d])
qed

subsection \<open>C2: two-byte result fields\<close>

text \<open>
  C2 says that the search-template and count-templates results are rebuilt as
  \<open>high * 256 + low\<close>. The device answers the search with position bytes \<open>0x01, 0x02\<close>
  and score bytes \<open>0x00, 0x05\<close>, and the count with bytes \<open>0x01, 0x02\<close>: the code
  returns position 256 and count 256 where the big-endian value is 258, because the
  \<^verbatim>\<open>or\<close> between the two shifted bytes drops the low byte once the high byte is non-zero.
\<close>

theorem two_byte_fields_lose_low_byte:
  "fst (search_template
          \<lparr>address = 0xFFFFFFFF,
             source = fake_source (encode 0xFFFFFFFF ACK [0x00, 0x01, 0x02, 0x00, 0x05]),
             clock = (\<lambda>n. int n)\<rparr> READ fresh) = Inr (256, 5)
   \<and> fst (count_fingers
          \<lparr>address = 0xFFFFFFFF,
             source = fake_source (encode 0xFFFFFFFF ACK [0x00, 0x01, 0x02]),
             clock = (\<lambda>n. int n)\<rparr> fresh) = Inr 256"
  by code_simp

subsection \<open>C3: checksum sensitivity\<close>

text \<open>
  C3 says that flipping one bit of a payload byte of an encoded frame, with the checksum
  bytes left as they are, makes the decoder raise \<^verbatim>\<open>CorruptedPacket\<close>. The frame of
  the payload \<open>[251, 1]\<close> has checksum \<open>0x0101\<close>; with bit 0 of its second payload byte
  (frame index 10) flipped the decoder returns the changed payload and raises nothing.
\<close>

theorem flipped_payload_bit_is_accepted:
  "decode_stream
     (fake_source
        ((encode 0xFFFFFFFF COMMAND [251, 1])
           [10 := flip_bit 0 (encode 0xFFFFFFFF COMMAND [251, 1] ! 10)]))
     = Inr (1, [251, 0])"
  by code_simp

subsection \<open>C4: the sensor mode around the detection loop\<close>

text \<open>
  C4 says that every exit of \<^verbatim>\<open>read\<close> performs a count-templates exchange before the
  mode is \<open>FREE\<close> again. Two runs from the fresh session show otherwise. A scan that
  succeeds at once leaves \<^verbatim>\<open>read\<close> after the mode changes \<open>BUSY\<close>, \<open>FREE\<close> around a
  single request, the scan: no count-templates exchange is made. A run that times out
  after one scan makes the count-templates exchange, but after the mode was set to
  \<open>FREE\<close>, not before.
\<close>

theorem read_exits_counterexample:
  "map_option (\<lambda>(r, w'). (r, events w'))
     (read \<lparr>address = 0xFFFFFFFF,
             source = fake_source (encode 0xFFFFFFFF ACK [PayloadData_hex SUCCESS]),
             clock = (\<lambda>n. int n)\<rparr> None fresh)
     = Some (Inr (), [Mode BUSY, Sent COMMAND [PayloadData_hex SCAN], Mode FREE])
   \<and> map_option (\<lambda>(r, w'). (r, events w'))
     (read \<lparr>address = 0xFFFFFFFF,
             source = fake_source (encode 0xFFFFFFFF ACK [Error_hex NO_FINGER_FOUND]
                                     @ encode 0xFFFFFFFF ACK [0x00, 0x00, 0x0A]),
             clock = (\<lambda>n. int n)\<rparr> (Some 1) fresh)
     = Some (Inl NoFingerFound,
             [Mode BUSY, Sent COMMAND [PayloadData_hex SCAN], Mode FREE,
              Sent COMMAND [PayloadData_hex COUNT_TEMPLATES]])"
proof -
  have f: "encode 0xFFFFFFFF ACK [0x00]
      = [0xEF, 0x01, 0xFF, 0xFF, 0xFF, 0xFF, 0x07, 0x00, 0x03, 0x00, 0x00, 0x0A]"
    by code_simp
  show ?thesis by (simp add: run_defs f no_finger_frame count_ten_frame)
qed

text \<open>
  C4 as amended. Whenever \<^verbatim>\<open>read\<close> returns or raises, the sensor mode is \<open>FREE\<close>, and
  what it did to the mode and sent to the device is, in this order: it set the mode to
  \<open>BUSY\<close>, made one or more scan exchanges, set the mode to \<open>FREE\<close>, and then, exactly
  when the exit is neither the successful one nor \<^verbatim>\<open>ReadInputError\<close> (that is, on the
  timeout and cancellation exits), made one count-templates exchange. The mode is set
  to \<open>BUSY\<close> before the first scan and to \<open>FREE\<close> once, after the last scan; the
  count-templates exchange, where there is one, comes after the mode is \<open>FREE\<close>.
\<close>

theorem read_sensor_mode:
  assumes "read E timeout w = Some (r, w')"
  shows "status w' = FREE
     \<and> (\<exists>k. events w' = events w @ [Mode BUSY]
               @ replicate (Suc k) (Sent COMMAND [PayloadData_hex SCAN])
               @ (if r = Inr () \<or> r = Inl ReadInputError then [Mode FREE]
                  else [Mode FREE, Sent COMMAND [PayloadData_hex COUNT_TEMPLATES]]))"
  using read_status [OF assms] read_events [OF assms] by blast

theorem read_sensor_mode_witness:
  "\<exists>w'. read \<lparr>address = 0xFFFFFFFF,
                source = fake_source (encode 0xFFFFFFFF ACK [0x02]
                                        @ encode 0xFFFFFFFF ACK [0x00, 0x00, 0x0A]),
                clock = (\<lambda>n. 3 * int n)\<rparr> (Some 2) fresh = Some (Inl NoFingerFound, w')
         \<and> status w' = FREE
         \<and> (\<exists>k. events w' = Mode BUSY # replicate (Suc k) (Sent COMMAND [PayloadData_hex SCAN])
                     @ [Mode FREE, Sent COMMAND [PayloadData_hex COUNT_TEMPLATES]])"
proof -
  let ?E = "\<lparr>address = 0xFFFFFFFF,
             source = fake_source (encode 0xFFFFFFFF ACK [0x02]
                                     @ encode 0xFFFFFFFF ACK [0x00, 0x00, 0x0A]),
             clock = (\<lambda>n. 3 * int n)\<rparr>"
  have "\<exists>w'. read ?E (Some 2) fresh = Some (Inl NoFingerFound, w')"
    by (simp add: run_defs no_finger_frame count_ten_frame)
  then obtain w' where r: "read ?E (Some 2) fresh = Some (Inl NoFingerFound, w')" ..
  from read_sensor_mode [OF r] r show ?thesis
    by (auto simp: fresh_def)
qed

subsection \<open>C5: enrolling a finger that is already known\<close>

text \<open>
  C5: when the sensor is free and the verify step (\<^verbatim>\<open>check_finger\<close>) finds a match,
  \<^verbatim>\<open>register\<close> raises \<^verbatim>\<open>FingerExists\<close> in the state verify left; the requests sent
  are the scans of the detection loop, one buffer-image request for the \<open>READ\<close> buffer
  and one search-template request, so none of them is a create-template or a
  store-template request.
\<close>

theorem register_known_finger:
  assumes "status w = FREE" and "check_finger E timeout w = Some (Inr found, w')"
  shows "register E position timeout w = Some (Inl FingerExists, w')
     \<and> (\<exists>k. sent w' = sent w @ replicate (Suc k) (COMMAND, [PayloadData_hex SCAN])
              @ [(COMMAND, [PayloadData_hex BUFFER_IMAGE, CharBuffer_hex READ]),
                 (COMMAND, [PayloadData_hex SEARCH_TEMPLATE, CharBuffer_hex READ,
                            shift_right 0x0000 8, shift_right 0x0000 0,
                            shift_right 0x00A3 8, shift_right 0x00A3 0])])
     \<and> (\<forall>request \<in> set (drop (length (sent w)) (sent w')).
           take 1 (snd request) \<noteq> [PayloadData_hex CREATE_TEMPLATE]
           \<and> take 1 (snd request) \<noteq> [PayloadData_hex STORE_TEMPLATE])"
proof -
  have a: "register E position timeout w = Some (Inl FingerExists, w')"
    using assms by (simp add: register_def)
  from check_finger_found [OF assms(2)] obtain k where
    k: "sent w' = sent w @ replicate (Suc k) (COMMAND, [PayloadData_hex SCAN])
              @ [(COMMAND, [PayloadData_hex BUFFER_IMAGE, CharBuffer_hex READ]),
                 (COMMAND, [PayloadData_hex SEARCH_TEMPLATE, CharBuffer_hex READ,
                            shift_right 0x0000 8, shift_right 0x0000 0,
                            shift_right 0x00A3 8, shift_right 0x00A3 0])]"
    by blast
  have c: "\<forall>request \<in> set (drop (length (sent w)) (sent w')).
           take 1 (snd request) \<noteq> [PayloadData_hex CREATE_TEMPLATE]
           \<and> take 1 (snd request) \<noteq> [PayloadData_hex STORE_TEMPLATE]"
    by (auto simp: k)
  from a k c show ?thesis by blast
qed

theorem register_known_finger_witness:
  "map_option fst
     (register \<lparr>address = 0xFFFFFFFF,
                 source = fake_source (encode 0xFFFFFFFF ACK [0x00] @ encode 0xFFFFFFFF ACK [0x00]
                                         @ encode 0xFFFFFFFF ACK [0x00, 0x00, 0x03, 0x00, 0x64]),
                 clock = (\<lambda>n. int n)\<rparr> None None fresh) = Some (Inl FingerExists)"
proof -
  let ?E = "\<lparr>address = 0xFFFFFFFF,
             source = fake_source (encode 0xFFFFFFFF ACK [0x00] @ encode 0xFFFFFFFF ACK [0x00]
                                     @ encode 0xFFFFFFFF ACK [0x00, 0x00, 0x03, 0x00, 0x64]),
             clock = (\<lambda>n. int n)\<rparr>"
  have f0: "encode 0xFFFFFFFF ACK [0x00]
      = [0xEF, 0x01, 0xFF, 0xFF, 0xFF, 0xFF, 0x07, 0x00, 0x03, 0x00, 0x00, 0x0A]"
    by code_simp
  have f1: "encode 0xFFFFFFFF ACK [0x00, 0x00, 0x03, 0x00, 0x64]
      = [0xEF, 0x01, 0xFF, 0xFF, 0xFF, 0xFF, 0x07, 0x00, 0x07, 0x00, 0x00, 0x03, 0x00, 0x64,
         0x00, 0x75]"
    by code_simp
  have "\<exists>w'. check_finger ?E None fresh = Some (Inr (3, 100), w')"
    by (simp add: check_finger_def buffer_image_def search_template_def run_defs f0 f1)
  then obtain w' where c: "check_finger ?E None fresh = Some (Inr (3, 100), w')" ..
  have s: "status fresh = FREE" by (simp add: fresh_def)
  from register_known_finger [OF s c, of None] show ?thesis by simp
qed

subsection \<open>C6: the detection loop and its timeout\<close>

text \<open>
  C6 says that \<^verbatim>\<open>read(timeout=T)\<close>, against a source whose scan exchanges all report
  no finger and with the cancellation flag unset, ends by raising \<^verbatim>\<open>NoFingerFound\<close>.
  Two runs against the device that answers every exchange with the no-finger
  acknowledgement show otherwise: with \<^verbatim>\<open>timeout=0\<close> the loop never returns, and with
  \<^verbatim>\<open>timeout=2\<close> the count-templates exchange made on the way out receives the
  no-finger code, which \<^verbatim>\<open>count_fingers\<close> does not know, so \<^verbatim>\<open>read\<close> raises
  \<^verbatim>\<open>UnknownError\<close>.
\<close>

theorem read_timeout_counterexample:
  "read \<lparr>address = 0, source = no_finger_device, clock = (\<lambda>n. 7 * int n)\<rparr> (Some 0) fresh = None
   \<and> map_option fst
        (read \<lparr>address = 0xFFFFFFFF, source = no_finger_device, clock = (\<lambda>n. int n)\<rparr>
           (Some 2) fresh) = Some (Inl UnknownError)"
proof
  let ?E = "\<lparr>address = 0, source = no_finger_device, clock = (\<lambda>n. 7 * int n)\<rparr>"
  have "read_loop ?E (Some 0) (clock ?E (ticks fresh)) ((set_status BUSY fresh)\<lparr>ticks := ticks fresh + 1\<rparr>)
          = None"
    using no_finger_device_replies by (intro read_loop_diverges) (simp_all add: fresh_def)
  then show "read ?E (Some 0) fresh = None" by (simp add: read_unfold)
next
  show "map_option fst
        (read \<lparr>address = 0xFFFFFFFF, source = no_finger_device, clock = (\<lambda>n. int n)\<rparr>
           (Some 2) fresh) = Some (Inl UnknownError)"
    by (simp add: run_defs no_finger_device_def no_finger_frame)
qed

text \<open>
  C6 as amended. Let \<open>T\<close> be non-zero and the cancellation flag unset, let the first \<open>K\<close>
  scan exchanges (\<open>K > 0\<close>) be answered with the no-finger acknowledgement, and let the
  clock reading after the \<open>K\<close>-th scan be the first that lies \<open>T\<close> or more after the
  reading taken on entry. Then \<^verbatim>\<open>read(timeout=T)\<close> returns or raises, with the sensor
  mode \<open>FREE\<close>, after \<open>K + 1\<close> clock readings (one on entry and one per scan) and after
  sending exactly \<open>K\<close> scan requests followed by one count-templates request; and when
  the device answers that count-templates request with a count, what it raises is
  \<^verbatim>\<open>NoFingerFound\<close>.
\<close>

theorem read_times_out:
  assumes "T \<noteq> 0" and "\<not> kill_read_finger w" and "0 < K"
    and "\<forall>k<K. no_finger_reply (source E) (rpos w + 12 * k)"
    and "\<forall>k. 0 < k \<and> k < K \<longrightarrow> clock E (ticks w + k) - clock E (ticks w) < T"
    and "clock E (ticks w + K) - clock E (ticks w) \<ge> T"
  shows "\<exists>r w'. read E (Some T) w = Some (r, w') \<and> status w' = FREE
           \<and> ticks w' = ticks w + K + 1
           \<and> sent w' = sent w @ replicate K (COMMAND, [PayloadData_hex SCAN])
                          @ [(COMMAND, [PayloadData_hex COUNT_TEMPLATES])]
           \<and> ((\<exists>c. count_reply (source E) (rpos w + 12 * K) c) \<longrightarrow> r = Inl NoFingerFound)"
proof -
  let ?w = "(set_status BUSY w)\<lparr>ticks := ticks w + 1\<rparr>"
  obtain n where K: "K = Suc n" using assms(3) by (cases K) simp_all
  have d: "\<forall>k\<le>n. no_finger_reply (source E) (rpos ?w + 12 * k)"
    using assms(4) K by simp
  have e: "\<forall>k<n. clock E (ticks ?w + k) - clock E (ticks w) < T"
  proof (intro allI impI)
    fix k assume "k < n"
    then have "0 < Suc k \<and> Suc k < K" using K by simp
    with assms(5) have "clock E (ticks w + Suc k) - clock E (ticks w) < T" by blast
    then show "clock E (ticks ?w + k) - clock E (ticks w) < T" by (simp add: algebra_simps)
  qed
  have l: "clock E (ticks ?w + n) - clock E (ticks w) \<ge> T"
    using assms(6) K by (simp add: algebra_simps)
  have k: "\<not> kill_read_finger ?w" using assms(2) by simp
  from read_loop_times_out [OF assms(1) k d e l]
  obtain r w' where r: "read_loop E (Some T) (clock E (ticks w)) ?w = Some (r, w')"
    "status w' = FREE" "ticks w' = ticks ?w + n + 1"
    "sent w' = sent ?w @ replicate (Suc n) (COMMAND, [PayloadData_hex SCAN])
                 @ [(COMMAND, [PayloadData_hex COUNT_TEMPLATES])]"
    "\<forall>c. count_reply (source E) (rpos ?w + 12 * (n + 1)) c \<longrightarrow> r = Inl NoFingerFound"
    by blast
  have i: "(\<exists>c. count_reply (source E) (rpos w + 12 * K) c) \<longrightarrow> r = Inl NoFingerFound"
    using r(5) K by (auto simp: algebra_simps)
  show ?thesis
  proof (cases r)
    case (Inl x)
    then have "read E (Some T) w = Some (r, w')" using r(1) by (simp add: read_unfold)
    then show ?thesis using r(2,3,4) i K by simp
  next
    case (Inr u)
    then have "read E (Some T) w = Some (Inr (), set_status FREE w')"
      using r(1) by (simp add: read_unfold)
    moreover have "\<not> (\<exists>c. count_reply (source E) (rpos w + 12 * K) c)"
      using i Inr by auto
    ultimately show ?thesis using r(2,3,4) K by simp
  qed
qed

theorem read_times_out_witness:
  "\<exists>w'. read \<lparr>address = 0xFFFFFFFF,
                source = fake_source (encode 0xFFFFFFFF ACK [0x02] @ encode 0xFFFFFFFF ACK [0x02]
                                        @ encode 0xFFFFFFFF ACK [0x00, 0x00, 0x0A]),
                clock = (\<lambda>n. int n)\<rparr> (Some 2) fresh = Some (Inl NoFingerFound, w')
         \<and> status w' = FREE \<and> ticks w' = 3
         \<and> sent w' = [(COMMAND, [PayloadData_hex SCAN]), (COMMAND, [PayloadData_hex SCAN]),
                      (COMMAND, [PayloadData_hex COUNT_TEMPLATES])]"
proof -
  let ?src = "fake_source (encode 0xFFFFFFFF ACK [0x02] @ encode 0xFFFFFFFF ACK [0x02]
                             @ encode 0xFFFFFFFF ACK [0x00, 0x00, 0x0A])"
  let ?E = "\<lparr>address = 0xFFFFFFFF, source = ?src, clock = (\<lambda>n. int n)\<rparr>"
  have 0: "no_finger_reply ?src 0" and 1: "no_finger_reply ?src 12"
    by (simp_all add: no_finger_reply_def fake_source_def no_finger_frame count_ten_frame)
  have d: "\<forall>k<2. no_finger_reply (source ?E) (rpos fresh + 12 * k)"
  proof (intro allI impI)
    fix k :: nat assume "k < 2"
    then have "k = 0 \<or> k = 1" by auto
    then show "no_finger_reply (source ?E) (rpos fresh + 12 * k)"
      using 0 1 by (auto simp: fresh_def)
  qed
  have e: "\<forall>k. 0 < k \<and> k < 2 \<longrightarrow> clock ?E (ticks fresh + k) - clock ?E (ticks fresh) < 2"
    by (auto simp: fresh_def)
  have c: "count_reply (source ?E) (rpos fresh + 12 * 2) 10"
    by (simp add: count_reply_def run_defs no_finger_frame count_ten_frame)
  have t: "(2::int) \<noteq> 0" and q: "\<not> kill_read_finger fresh" and z: "(0::nat) < 2"
    and l: "clock ?E (ticks fresh + 2) - clock ?E (ticks fresh) \<ge> 2"
    by (simp_all add: fresh_def)
  from read_times_out [OF t q z d e l]
  obtain r w' where r: "read ?E (Some 2) fresh = Some (r, w')" "status w' = FREE"
    "ticks w' = ticks fresh + 2 + 1"
    "sent w' = sent fresh @ replicate 2 (COMMAND, [PayloadData_hex SCAN])
                 @ [(COMMAND, [PayloadData_hex COUNT_TEMPLATES])]"
    "(\<exists>c. count_reply (source ?E) (rpos fresh + 12 * 2) c) \<longrightarrow> r = Inl NoFingerFound"
    by blast
  have "r = Inl NoFingerFound" using r(5) c by blast
  then show ?thesis
    using r(1,2,3,4) by (simp add: fresh_def numeral_2_eq_2)
qed

subsection \<open>C7: cancellation before timeout\<close>

text \<open>
  C7 says that with the cancellation flag set when a no-finger response is processed,
  \<^verbatim>\<open>read\<close> raises \<^verbatim>\<open>KillSignal\<close>. The handler clears the flag, sets the mode to
  \<open>FREE\<close> and then calls \<^verbatim>\<open>count_fingers\<close> before its \<^verbatim>\<open>raise KillSignal\<close>, so a fault
  of that call leaves \<^verbatim>\<open>read\<close> in the place of \<^verbatim>\<open>KillSignal\<close>. With the flag set,
  \<^verbatim>\<open>read(timeout=5)\<close> against the device that answers every exchange with the no-finger
  acknowledgement raises \<^verbatim>\<open>UnknownError\<close>, and \<^verbatim>\<open>read()\<close> against a device that answers
  the scan with the no-finger code and the count with the communication-error code
  raises \<^verbatim>\<open>CommunicationError\<close>; in both runs the flag is cleared and the mode is \<open>FREE\<close>.
  The docstring of \<^verbatim>\<open>read\<close> lists \<^verbatim>\<open>NoFingerFound\<close>, \<^verbatim>\<open>KillSignal\<close> and
  \<^verbatim>\<open>ReadInputError\<close> only.
\<close>

theorem cancellation_masked_by_count_fault:
  "map_option (\<lambda>(r, w'). (r, kill_read_finger w', status w'))
     (read \<lparr>address = 0xFFFFFFFF, source = no_finger_device, clock = (\<lambda>n. int n)\<rparr>
        (Some 5) (fresh\<lparr>kill_read_finger := True\<rparr>)) = Some (Inl UnknownError, False, FREE)
   \<and> map_option (\<lambda>(r, w'). (r, kill_read_finger w', status w'))
     (read \<lparr>address = 0xFFFFFFFF,
             source = fake_source (encode 0xFFFFFFFF ACK [Error_hex NO_FINGER_FOUND]
                                     @ encode 0xFFFFFFFF ACK [Error_hex COMMUNICATION]),
             clock = (\<lambda>n. int n)\<rparr>
        None (fresh\<lparr>kill_read_finger := True\<rparr>)) = Some (Inl CommunicationError, False, FREE)"
proof -
  have f: "encode 0xFFFFFFFF ACK [0x01]
      = [0xEF, 0x01, 0xFF, 0xFF, 0xFF, 0xFF, 0x07, 0x00, 0x03, 0x01, 0x00, 0x0B]"
    by code_simp
  show ?thesis by (simp add: run_defs no_finger_device_def no_finger_frame f)
qed

subsection \<open>C8: no available position\<close>




subsection \<open>C9: zero-byte reads\<close>

text \<open>
  C9 says that a zero-byte read at any stream position is absorbed without any exception
  other than the framing and corruption faults. With the frame of an acknowledgement
  whose eighth read (index 7, the high length byte) times out, the decoder raises
  \<^verbatim>\<open>TypeError\<close>.
\<close>

theorem zero_byte_read_in_length_field_raises_TypeError:
  "decode_stream
     (scripted_source ((map Some (encode 0xFFFFFFFF ACK [0x00, 0x00, 0x0A]))[7 := None]))
     = Inl TypeError"
  by code_simp

subsection \<open>C10: a timeout of zero\<close>

text \<open>
  C10: \<^verbatim>\<open>read(timeout=0)\<close> behaves as \<^verbatim>\<open>read(timeout=None)\<close> on every device and in
  every state, it never yields the timeout outcome \<^verbatim>\<open>NoFingerFound\<close>, and against a
  device that answers every exchange with the no-finger acknowledgement, with the
  cancellation flag unset, it never returns.
\<close>

theorem read_timeout_zero_never_times_out:
  assumes "\<forall>k. no_finger_reply (source E) (rpos w + 12 * k)" and "\<not> kill_read_finger w"
  shows "read E (Some 0) w = None
       \<and> read E' (Some 0) w' = read E' None w'
       \<and> map_option fst (read E' (Some 0) w') \<noteq> Some (Inl NoFingerFound)"
proof -
  let ?w = "(set_status BUSY w)\<lparr>ticks := ticks w + 1\<rparr>"
  have "read_loop E (Some 0) (clock E (ticks w)) ?w = None"
    using assms by (intro read_loop_diverges) simp_all
  then have a: "read E (Some 0) w = None" by (simp add: read_unfold)
  have b: "read E' (Some 0) w' = read E' None w'"
    by (simp add: read_unfold read_loop_zero)
  have c: "map_option fst (read E' (Some 0) w') \<noteq> Some (Inl NoFingerFound)"
  proof (cases "read_loop E' (Some 0) (clock E' (ticks w')) ((set_status BUSY w')\<lparr>ticks := ticks w' + 1\<rparr>)")
    case None
    then show ?thesis by (simp add: read_unfold)
  next
    case (Some y)
    from read_loop_untimed_outcome [OF Some] have "fst y \<noteq> Inl NoFingerFound" by simp
    then show ?thesis using Some by (cases y) (auto simp: read_unfold split: sum.splits)
  qed
  from a b c show ?thesis by simp
qed

theorem read_timeout_zero_witness:
  "read \<lparr>address = 0xFFFFFFFF, source = no_finger_device, clock = (\<lambda>n. int n)\<rparr>
     (Some 0) fresh = None"
proof -
  let ?E = "\<lparr>address = 0xFFFFFFFF, source = no_finger_device, clock = (\<lambda>n. int n)\<rparr>"
  have d: "\<forall>k. no_finger_reply (source ?E) (rpos fresh + 12 * k)"
    using no_finger_device_replies by (simp add: fresh_def)
  have k: "\<not> kill_read_finger fresh"
    by (simp add: fresh_def)
  show ?thesis
    using read_timeout_zero_never_times_out [OF d k] by blast
qed

end
